theory Spec2Isabelle
  imports Main "HOL-Library.Multiset"
begin

section \<open>Errors\<close>

text \<open>
  Go's \<open>error\<close> values.  \<open>nil\<close> is \<open>None\<close> of \<open>error option\<close>.  \<open>Wrapf msg e\<close> is
  \<open>fmt.Errorf(msg + ": %w", e)\<close>; \<open>Aggregate es\<close> is what \<open>utilerrors.NewAggregate\<close>
  returns for a non-empty list.
\<close>

datatype error =
    AlreadyExists
  | NotFound
  | ContextCanceled
  | Failure string
  | Wrapf string error
  | Aggregate "error list"

text \<open>\<open>errors.IsAlreadyExists\<close> of apimachinery.\<close>

definition IsAlreadyExists :: "error \<Rightarrow> bool" where
  "IsAlreadyExists e = (e = AlreadyExists)"

text \<open>
  \<open>utilerrors.NewAggregate\<close> of apimachinery: \<open>nil\<close> for an empty list, otherwise an
  aggregate of the listed errors (the lists built here never hold \<open>nil\<close>).
\<close>

definition NewAggregate :: "error list \<Rightarrow> error option" where
  "NewAggregate errs = (if errs = [] then None else Some (Aggregate errs))"

section \<open>github-ldap-user-group-creator: \<open>UpsertGroup\<close>\<close>

text \<open>
  \<open>userv1.Group\<close>: the object's name, the rest of its metadata (labels), and its users.
\<close>

record Group =
  Name :: string
  Labels :: "(string \<times> string) list"
  Users :: "string list"

text \<open>
  \<open>ctrlruntimeclient.Client\<close>, the three calls \<open>UpsertGroup\<close> makes, over a cluster state
  \<open>'c\<close>.  \<open>Create\<close> and \<open>Delete\<close> return the error (or \<open>nil\<close>) and the new state;
  \<open>Get\<close> reads.
\<close>

record 'c Client =
  Create :: "Group \<Rightarrow> 'c \<Rightarrow> error option \<times> 'c"
  Get :: "string \<Rightarrow> 'c \<Rightarrow> error + Group"
  Delete :: "Group \<Rightarrow> 'c \<Rightarrow> error option \<times> 'c"

text \<open>
  \<open>UpsertGroup\<close>, returning \<open>((created, err), state)\<close>.
  \<open>equality.Semantic.DeepEqual\<close> on two \<open>[]string\<close> is equality of the lists (a nil
  and an empty slice are equal, both are \<open>[]\<close> here).
\<close>

definition UpsertGroup :: "'c Client \<Rightarrow> Group \<Rightarrow> 'c \<Rightarrow> (bool \<times> error option) \<times> 'c" where
  "UpsertGroup client grp c =
     (case Create client grp c of
        (None, c1) \<Rightarrow> ((True, None), c1)
      | (Some err, c1) \<Rightarrow>
          if \<not> IsAlreadyExists err then ((False, Some err), c1)
          else (case Get client (Name grp) c1 of
                  Inl err2 \<Rightarrow> ((False, Some err2), c1)
                | Inr existing \<Rightarrow>
                    if Users grp = Users existing then ((False, None), c1)
                    else (case Delete client existing c1 of
                            (Some err3, c2) \<Rightarrow> ((False, Some (Wrapf ''delete failed'' err3)), c2)
                          | (None, c2) \<Rightarrow>
                              (case Create client grp c2 of
                                 (err4, c3) \<Rightarrow> ((False, err4), c3)))))"

text \<open>
  The cluster the client talks to: the stored groups by name (labels and users), and
  the log of the mutations the API server has carried out.
\<close>

datatype mutation = Created Group | Deleted string

record cluster =
  objects :: "string \<rightharpoonup> (string \<times> string) list \<times> string list"
  mutations :: "mutation list"

definition apiCreate :: "Group \<Rightarrow> cluster \<Rightarrow> error option \<times> cluster" where
  "apiCreate g c =
     (case objects c (Name g) of
        Some _ \<Rightarrow> (Some AlreadyExists, c)
      | None \<Rightarrow> (None, c\<lparr>objects := (objects c)(Name g \<mapsto> (Labels g, Users g)),
                           mutations := mutations c @ [Created g]\<rparr>))"

definition apiGet :: "string \<Rightarrow> cluster \<Rightarrow> error + Group" where
  "apiGet n c =
     (case objects c n of
        None \<Rightarrow> Inl NotFound
      | Some (ls, us) \<Rightarrow> Inr \<lparr>Name = n, Labels = ls, Users = us\<rparr>)"

definition apiDelete :: "Group \<Rightarrow> cluster \<Rightarrow> error option \<times> cluster" where
  "apiDelete g c =
     (case objects c (Name g) of
        None \<Rightarrow> (Some NotFound, c)
      | Some _ \<Rightarrow> (None, c\<lparr>objects := (objects c)(Name g := None),
                             mutations := mutations c @ [Deleted (Name g)]\<rparr>))"

definition apiserver :: "cluster Client" where
  "apiserver = \<lparr>Create = apiCreate, Get = apiGet, Delete = apiDelete\<rparr>"

text \<open>The state \<open>UpsertGroup\<close> leaves when it has stored \<open>g\<close>, after the mutations \<open>ms\<close>.\<close>

definition stored :: "Group \<Rightarrow> mutation list \<Rightarrow> cluster \<Rightarrow> cluster" where
  "stored g ms c = c\<lparr>objects := (objects c)(Name g \<mapsto> (Labels g, Users g)),
                     mutations := mutations c @ ms\<rparr>"

section \<open>ci-operator-yaml-creator: \<open>process\<close>\<close>

text \<open>\<open>ImageStreamTagReference\<close>: namespace, name, tag.\<close>

type_synonym istag = "string \<times> string \<times> string"

record BuildRootImageConfiguration =
  ImageStreamTagReference :: "istag option"
  FromRepository :: bool

record ReleaseBuildConfiguration =
  BuildRootImage :: "BuildRootImageConfiguration option"

text \<open>\<open>config.Info\<close>: the embedded metadata and the file the configuration was read from.\<close>

record Info =
  Org :: string
  Repo :: string
  Branch :: string
  Variant :: string
  Filename :: string

text \<open>\<open>CIOperatorInrepoConfig\<close> has the one field \<open>BuildRootImage\<close>.\<close>

type_synonym CIOperatorInrepoConfig = istag

text \<open>
  The capabilities \<open>process\<close> is given, and the library calls it makes, as functions of
  their arguments: \<open>filter\<close>, \<open>repoFileGetter\<close> (the read of \<open>.ci-operator.yaml\<close>),
  \<open>yaml.Unmarshal\<close>, \<open>yaml.Marshal\<close> of the rewritten configuration and of the expected
  in-repo config, \<open>writeFile\<close>, \<open>clone\<close> (the directory of the clone), \<open>Checkout\<close>,
  \<open>ioutil.WriteFile\<close> into the clone, and \<open>createPr\<close>.
\<close>

record capabilities =
  filter_fn :: "Info \<Rightarrow> bool"
  repoFileGetter :: "string \<Rightarrow> string \<Rightarrow> string \<Rightarrow> error + string"
  yamlUnmarshal :: "string \<Rightarrow> error + CIOperatorInrepoConfig"
  marshalConfig :: "ReleaseBuildConfiguration \<Rightarrow> error + string"
  marshalInrepo :: "CIOperatorInrepoConfig \<Rightarrow> error + string"
  writeFile :: "string \<Rightarrow> string \<Rightarrow> error option"
  clone :: "string \<Rightarrow> string \<Rightarrow> error + string"
  checkout :: "string \<Rightarrow> string \<Rightarrow> error option"
  writeInClone :: "string \<Rightarrow> string \<Rightarrow> error option"
  createPr :: "string \<Rightarrow> string \<Rightarrow> string \<Rightarrow> string \<Rightarrow> error option"

text \<open>
  The calls the closure makes on the world, in order, each with its arguments; a call
  is logged whether it succeeds or fails, and its error is what the closure returns.
\<close>

datatype effect =
    WroteConfig string string
  | Cloned string string
  | CheckedOut string string
  | WroteInClone string string
  | CreatedPr string string string string
  | Cleaned string

text \<open>
  The variables the returned closure captures: \<open>clonesDone\<close> (a Go \<open>int\<close>; it counts
  calls, far below the 64-bit range), and the effects so far.
\<close>

record closure =
  clonesDone :: int
  effects :: "effect list"

definition emit :: "effect list \<Rightarrow> closure \<Rightarrow> closure" where
  "emit es st = st\<lparr>effects := effects st @ es\<rparr>"

text \<open>
  The part of the closure after the guarded counter: clone, checkout, write, create the
  pull request; the deferred function cleans the clone on every return after a clone
  that succeeded.
\<close>

definition cloneAndPr :: "capabilities \<Rightarrow> Info \<Rightarrow> string \<Rightarrow> closure \<Rightarrow> error option \<times> closure" where
  "cloneAndPr cap metadata expectedSerialized st =
     (case clone cap (Org metadata) (Repo metadata) of
        Inl err \<Rightarrow> (Some (Wrapf ''failed to clone'' err), emit [Cloned (Org metadata) (Repo metadata)] st)
      | Inr dir \<Rightarrow>
          (case checkout cap dir (Branch metadata) of
             Some err \<Rightarrow>
               (Some (Wrapf ''failed to checkout'' err),
                emit [Cloned (Org metadata) (Repo metadata), CheckedOut dir (Branch metadata), Cleaned dir] st)
           | None \<Rightarrow>
               (case writeInClone cap dir expectedSerialized of
                  Some err \<Rightarrow>
                    (Some (Wrapf ''falled to write'' err),
                     emit [Cloned (Org metadata) (Repo metadata), CheckedOut dir (Branch metadata),
                           WroteInClone dir expectedSerialized, Cleaned dir] st)
                | None \<Rightarrow>
                    (createPr cap dir (Org metadata) (Repo metadata) (Branch metadata),
                     emit [Cloned (Org metadata) (Repo metadata), CheckedOut dir (Branch metadata),
                           WroteInClone dir expectedSerialized,
                           CreatedPr dir (Org metadata) (Repo metadata) (Branch metadata),
                           Cleaned dir] st))))"

text \<open>
  The two assignments that rewrite the configuration in place:
  \<open>cfg.BuildRootImage.ImageStreamTagReference = nil\<close> and
  \<open>cfg.BuildRootImage.FromRepository = true\<close>.
\<close>

definition enableFromRepository ::
  "ReleaseBuildConfiguration \<Rightarrow> BuildRootImageConfiguration \<Rightarrow> ReleaseBuildConfiguration" where
  "enableFromRepository cfg bri =
     cfg\<lparr>BuildRootImage := Some (bri\<lparr>ImageStreamTagReference := None, FromRepository := True\<rparr>)\<rparr>"

text \<open>
  The closure \<open>process\<close> returns, one call: the error returned and the closure's
  variables after it.  The mutex makes the test of the ceiling and the increment one
  atomic step.
\<close>

definition process ::
  "capabilities \<Rightarrow> int \<Rightarrow> ReleaseBuildConfiguration \<Rightarrow> Info \<Rightarrow> closure \<Rightarrow> error option \<times> closure" where
  "process cap pushCeiling cfg metadata st =
     (if \<not> filter_fn cap metadata then (None, st)
      else case BuildRootImage cfg of
        None \<Rightarrow> (None, st)
      | Some bri \<Rightarrow>
          if FromRepository bri \<or> Variant metadata \<noteq> ''''
             \<or> (Branch metadata \<noteq> ''master'' \<and> Branch metadata \<noteq> ''main'')
          then (None, st)
          else case ImageStreamTagReference bri of
            None \<Rightarrow> (None, st)
          | Some ist \<Rightarrow>
              (case repoFileGetter cap (Org metadata) (Repo metadata) (Branch metadata) of
                 Inl err \<Rightarrow> (Some (Wrapf ''failed to get'' err), st)
               | Inr data \<Rightarrow>
                   (case yamlUnmarshal cap data of
                      Inl err \<Rightarrow> (Some (Wrapf ''failed to unmarshal'' err), st)
                    | Inr inrepoconfig \<Rightarrow>
                        if inrepoconfig = ist then
                          (case marshalConfig cap (enableFromRepository cfg bri) of
                             Inl err \<Rightarrow> (Some (Wrapf ''failed to marshal config'' err), st)
                           | Inr serialized \<Rightarrow>
                               (case writeFile cap (Filename metadata) serialized of
                                  Some err \<Rightarrow>
                                    (Some (Wrapf ''failed to write'' err),
                                     emit [WroteConfig (Filename metadata) serialized] st)
                                | None \<Rightarrow>
                                    (None, emit [WroteConfig (Filename metadata) serialized] st)))
                        else
                          (case marshalInrepo cap ist of
                             Inl err \<Rightarrow> (Some (Wrapf ''failed to marshal'' err), st)
                           | Inr expectedSerialized \<Rightarrow>
                               if pushCeiling > 0 \<and> clonesDone st \<ge> pushCeiling then (None, st)
                               else cloneAndPr cap metadata expectedSerialized
                                      (st\<lparr>clonesDone := clonesDone st + 1\<rparr>)))))"

text \<open>
  \<open>OperateOnCIOperatorConfigDir\<close> feeds the closure one configuration after the other;
  the caller collects the errors and goes on.
\<close>

fun processAll ::
  "capabilities \<Rightarrow> int \<Rightarrow> (ReleaseBuildConfiguration \<times> Info) list \<Rightarrow> closure \<Rightarrow> error list \<times> closure" where
  "processAll cap pushCeiling [] st = ([], st)"
| "processAll cap pushCeiling ((cfg, metadata) # rest) st =
     (case process cap pushCeiling cfg metadata st of
        (r, st1) \<Rightarrow>
          (case processAll cap pushCeiling rest st1 of
             (errs, st2) \<Rightarrow> ((case r of None \<Rightarrow> errs | Some e \<Rightarrow> e # errs), st2)))"

definition newClosure :: closure where
  "newClosure = \<lparr>clonesDone = 0, effects = []\<rparr>"

fun isClone :: "effect \<Rightarrow> bool" where
  "isClone (Cloned _ _) = True"
| "isClone _ = False"

fun isPr :: "effect \<Rightarrow> bool" where
  "isPr (CreatedPr _ _ _ _) = True"
| "isPr _ = False"

definition clones :: "closure \<Rightarrow> nat" where
  "clones st = length (filter isClone (effects st))"

definition prs :: "closure \<Rightarrow> nat" where
  "prs st = length (filter isPr (effects st))"

text \<open>
  A configuration needs a clone when the closure, with no ceiling and a fresh counter,
  clones for it.
\<close>

definition needsClone :: "capabilities \<Rightarrow> ReleaseBuildConfiguration \<Rightarrow> Info \<Rightarrow> bool" where
  "needsClone cap cfg metadata = (clones (snd (process cap 0 cfg metadata newClosure)) = 1)"

text \<open>How many configurations of a list need a clone.\<close>

definition needing :: "capabilities \<Rightarrow> (ReleaseBuildConfiguration \<times> Info) list \<Rightarrow> nat" where
  "needing cap cfgs = length (filter (\<lambda>(cfg, metadata). needsClone cap cfg metadata) cfgs)"

text \<open>
  The in-repo config already matches: the closure's path reaches the comparison and the
  two configs are equal.
\<close>

definition inrepoMatches :: "capabilities \<Rightarrow> ReleaseBuildConfiguration \<Rightarrow> Info \<Rightarrow> bool" where
  "inrepoMatches cap cfg metadata =
     (filter_fn cap metadata \<and> Variant metadata = '''' \<and>
      (Branch metadata = ''master'' \<or> Branch metadata = ''main'') \<and>
      (case BuildRootImage cfg of
         None \<Rightarrow> False
       | Some bri \<Rightarrow>
           \<not> FromRepository bri \<and>
           (case ImageStreamTagReference bri of
              None \<Rightarrow> False
            | Some ist \<Rightarrow>
                (case repoFileGetter cap (Org metadata) (Repo metadata) (Branch metadata) of
                   Inl _ \<Rightarrow> False
                 | Inr data \<Rightarrow> yamlUnmarshal cap data = Inr ist))))"

text \<open>
  The path condition of the guarded counter: the call gets past every early return and
  finds an in-repo config that differs.
\<close>

definition reachesGate :: "capabilities \<Rightarrow> ReleaseBuildConfiguration \<Rightarrow> Info \<Rightarrow> bool" where
  "reachesGate cap cfg metadata =
     (filter_fn cap metadata \<and> Variant metadata = '''' \<and>
      (Branch metadata = ''master'' \<or> Branch metadata = ''main'') \<and>
      (case BuildRootImage cfg of
         None \<Rightarrow> False
       | Some bri \<Rightarrow>
           \<not> FromRepository bri \<and>
           (case ImageStreamTagReference bri of
              None \<Rightarrow> False
            | Some ist \<Rightarrow>
                (case repoFileGetter cap (Org metadata) (Repo metadata) (Branch metadata) of
                   Inl _ \<Rightarrow> False
                 | Inr data \<Rightarrow>
                    (case yamlUnmarshal cap data of
                       Inl _ \<Rightarrow> False
                     | Inr c \<Rightarrow> c \<noteq> ist \<and> (case marshalInrepo cap ist of Inl _ \<Rightarrow> False | Inr _ \<Rightarrow> True))))))"

text \<open>
  A rendering of a configuration that tells every value of the two fields apart.
\<close>

definition renderConfig :: "ReleaseBuildConfiguration \<Rightarrow> string" where
  "renderConfig cfg =
     (case BuildRootImage cfg of
        None \<Rightarrow> ''{}''
      | Some bri \<Rightarrow>
          ''build_root: {'' @
          (case ImageStreamTagReference bri of
             None \<Rightarrow> ''''
           | Some (ns, n, t) \<Rightarrow> ''image_stream_tag: '' @ ns @ ''/'' @ n @ '':'' @ t @ '', '') @
          ''from_repository: '' @ (if FromRepository bri then ''true'' else ''false'') @ ''}'')"

text \<open>
  A concrete set of capabilities: the in-repo config read from a repository carries the
  repository's name as its tag, the configuration is marshalled by \<open>renderConfig\<close>, and
  every write, clone and pull request succeeds.
\<close>

definition exampleCap :: capabilities where
  "exampleCap =
     \<lparr>filter_fn = (\<lambda>_. True),
      repoFileGetter = (\<lambda>org repo branch. Inr repo),
      yamlUnmarshal = (\<lambda>data. Inr (''openshift'', ''release'', data)),
      marshalConfig = (\<lambda>cfg. Inr (renderConfig cfg)),
      marshalInrepo = (\<lambda>_. Inr ''build_root_image: ...''),
      writeFile = (\<lambda>_ _. None),
      clone = (\<lambda>org repo. Inr (''/tmp/'' @ repo)),
      checkout = (\<lambda>_ _. None),
      writeInClone = (\<lambda>_ _. None),
      createPr = (\<lambda>_ _ _ _. None)\<rparr>"

definition exampleCfg :: ReleaseBuildConfiguration where
  "exampleCfg =
     \<lparr>BuildRootImage =
        Some \<lparr>ImageStreamTagReference = Some (''openshift'', ''release'', ''golang-1.20''),
              FromRepository = False\<rparr>\<rparr>"

definition exampleInfo :: "string \<Rightarrow> Info" where
  "exampleInfo repo =
     \<lparr>Org = ''openshift'', Repo = repo, Branch = ''master'', Variant = '''',
      Filename = ''config/'' @ repo @ ''.yaml''\<rparr>"

text \<open>The same capabilities with a disk that refuses every write of a configuration.\<close>

definition readOnlyCap :: capabilities where
  "readOnlyCap = exampleCap\<lparr>writeFile := (\<lambda>_ _. Some (Failure ''read-only file system''))\<rparr>"

section \<open>jobrunbigqueryloader: one job's pipeline\<close>

text \<open>
  What the GCS client hands out for a job run: the prowjob (or the error of reading it),
  whose status may lack a completion time, and the outcome of \<open>GetAllContent\<close>.
\<close>

record ProwJob =
  CompletionTime :: "nat option"

record JobRunInfo =
  GetJobRunID :: string
  GetProwJob :: "error + ProwJob"
  GetAllContent :: "error option"

text \<open>
  \<open>jobLoaderOptions\<close>: the fields \<open>Run\<close> uses.  The collaborators are functions of their
  arguments: \<open>gcsClient.ReadJobRunFromGCS\<close> by job run id (\<open>Inr None\<close> is the nil job
  run, no \<open>prowjob.json\<close>), \<open>jobRunInserter.Put\<close> and \<open>jobRunUploader.uploadContent\<close> by
  job run, \<open>getLastJobRunWithDataFn\<close> by job name (the name of the last row, if any),
  \<open>jobrunaggregatorlib.NextJobRunID\<close>, and the ids
  \<open>gcsClient.ListJobRunNamesOlderThanFourHours\<close> sends on its channel for a job name
  and a starting id.
\<close>

record jobLoaderOptions =
  jobName :: string
  ReadJobRunFromGCS :: "string \<Rightarrow> error + JobRunInfo option"
  numberOfConcurrentReaders :: int
  Put :: "JobRunInfo \<Rightarrow> error option"
  uploadContent :: "JobRunInfo \<Rightarrow> error option"
  getLastJobRunWithDataFn :: "string \<Rightarrow> error + string option"
  NextJobRunID :: "string \<Rightarrow> string"
  ListJobRunNamesOlderThanFourHours :: "string \<Rightarrow> string \<Rightarrow> error + string list"

text \<open>\<open>jobRunLoaderOptions.readJobRunFromGCS\<close>.\<close>

definition readJobRunFromGCS :: "jobLoaderOptions \<Rightarrow> string \<Rightarrow> error + JobRunInfo option" where
  "readJobRunFromGCS opts jrID =
     (case ReadJobRunFromGCS opts jrID of
        Inl err \<Rightarrow> Inl err
      | Inr None \<Rightarrow> Inr None
      | Inr (Some jobRunInfo) \<Rightarrow>
          (case GetProwJob jobRunInfo of
             Inl err \<Rightarrow> Inl (Wrapf ''failed to get prowjob'' err)
           | Inr prowjob \<Rightarrow>
               if CompletionTime prowjob = None then Inr None
               else (case GetAllContent jobRunInfo of
                       Some err \<Rightarrow> Inl (Wrapf ''failed to get all content'' err)
                     | None \<Rightarrow> Inr (Some jobRunInfo))))"

text \<open>
  Where a slot's goroutine stands.  \<open>NotStarted\<close>: the \<open>jobRunLoaderOptions\<close> exists, its
  goroutine does not yet.  Inside \<open>jobRunLoaderOptions.Run\<close>: \<open>Reading\<close> (in
  \<open>readJobRunFromGCS\<close>), \<open>Selecting\<close> (at the \<open>select\<close> on \<open>ctx.Done()\<close> and
  \<open>readyToUpload\<close>), \<open>Uploading\<close> (in \<open>uploadJobRun\<close>, before \<open>Put\<close>), \<open>Content\<close>
  (before \<open>uploadContent\<close>), \<open>Returning r\<close> (at \<open>return r\<close>, the deferred close still
  to run).  After it, in the goroutine of \<open>jobLoaderOptions.Run\<close>: \<open>Closed r\<close> (\<open>Run\<close>
  has returned \<open>r\<close>), \<open>Reported\<close> (the error, if any, sent and
  \<open>currentUploaders.Done()\<close> called), \<open>Released\<close> (\<open>concurrentWorkers.Release(1)\<close>
  called).
\<close>

datatype slotpc =
    NotStarted
  | Reading
  | Selecting JobRunInfo
  | Uploading JobRunInfo
  | Content JobRunInfo
  | Returning "error option"
  | Closed "error option"
  | Reported
  | Released

text \<open>A \<open>jobRunLoaderOptions\<close> with its goroutine; channels are named by numbers.\<close>

record slot =
  jobRunID :: string
  readyToUpload :: nat
  doneUploading :: nat
  stage :: slotpc

text \<open>Where \<open>jobLoaderOptions.Run\<close> itself stands.\<close>

datatype mainpc =
    Ranging
  | Acquiring
  | Waiting
  | Returned "error option"

text \<open>
  The state of one job's pipeline: the ids still to come on \<open>jobRunProcessingCh\<close>, the
  slots in the order of their creation, the variable \<open>lastDoneUploadingCh\<close>, the number
  of channels made, how often each channel has been closed, the tokens of
  \<open>concurrentWorkers\<close> that are taken, whether the context is done, the job run ids of
  the rows the inserter has accepted, in order, and \<open>insertionErrors\<close>.
\<close>

record pipeline =
  jobRunProcessingCh :: "string list"
  slots :: "slot list"
  lastDoneUploadingCh :: nat
  chans :: nat
  closes :: "nat \<Rightarrow> nat"
  tokens :: int
  ctxDone :: bool
  sink :: "string list"
  insertionErrors :: "error list"
  main :: mainpc

text \<open>
  The state when the loop over \<open>jobRunProcessingCh\<close> starts:
  \<open>lastDoneUploadingCh\<close> made (channel 0) and closed.
\<close>

definition pipelineStart :: "string list \<Rightarrow> pipeline" where
  "pipelineStart ids =
     \<lparr>jobRunProcessingCh = ids, slots = [], lastDoneUploadingCh = 0, chans = 1,
      closes = (\<lambda>_. 0)(0 := 1), tokens = 0, ctxDone = False, sink = [],
      insertionErrors = [], main = Ranging\<rparr>"

text \<open>
  The steps the goroutines take, one at a time, in any order.  Of the loop in
  \<open>jobLoaderOptions.Run\<close>: \<open>Recv\<close> (the next id, a new slot chained to the last; or the
  channel is closed and the loop ends), \<open>Acquire\<close> (a token is free: take it and start
  the goroutine), \<open>AcquireFailed\<close> (the context is done: return its error), \<open>WaitAll\<close>
  (\<open>currentUploaders.Wait()\<close> returns, the errors are aggregated).  Of slot \<open>i\<close>:
  \<open>Read\<close>, \<open>SelectDone\<close> and \<open>SelectReady\<close> (the two cases of the \<open>select\<close>),
  \<open>PutRow\<close>, \<open>UploadContent\<close>, \<open>Close\<close> (the deferred
  \<open>close(o.doneUploading)\<close>), \<open>Report\<close>, \<open>Release\<close>.  \<open>Cancel\<close>: the context is
  cancelled from outside.
\<close>

datatype action =
    Recv
  | Acquire
  | AcquireFailed
  | WaitAll
  | Cancel
  | Read nat
  | SelectDone nat
  | SelectReady nat
  | PutRow nat
  | UploadContent nat
  | Close nat
  | Report nat
  | Release nat

definition setpc :: "nat \<Rightarrow> slotpc \<Rightarrow> pipeline \<Rightarrow> pipeline" where
  "setpc i p s = s\<lparr>slots := (slots s)[i := (slots s ! i)\<lparr>stage := p\<rparr>]\<rparr>"

text \<open>The goroutine has called \<open>currentUploaders.Done()\<close>.\<close>

fun wgDone :: "slotpc \<Rightarrow> bool" where
  "wgDone Reported = True"
| "wgDone Released = True"
| "wgDone _ = False"

text \<open>The loop of \<open>jobLoaderOptions.Run\<close>.\<close>

definition mainStep :: "jobLoaderOptions \<Rightarrow> action \<Rightarrow> pipeline \<Rightarrow> pipeline option" where
  "mainStep opts a s =
     (case (a, main s) of
        (Recv, Ranging) \<Rightarrow>
          (case jobRunProcessingCh s of
             [] \<Rightarrow> Some (s\<lparr>main := Waiting\<rparr>)
           | jrID # rest \<Rightarrow>
               Some (s\<lparr>jobRunProcessingCh := rest,
                       slots := slots s @
                         [\<lparr>jobRunID = jrID, readyToUpload = lastDoneUploadingCh s,
                           doneUploading = chans s, stage = NotStarted\<rparr>],
                       lastDoneUploadingCh := chans s,
                       chans := chans s + 1,
                       main := Acquiring\<rparr>))
      | (Acquire, Acquiring) \<Rightarrow>
          if tokens s + 1 \<le> numberOfConcurrentReaders opts \<and> slots s \<noteq> []
          then Some (setpc (length (slots s) - 1) Reading (s\<lparr>tokens := tokens s + 1, main := Ranging\<rparr>))
          else None
      | (AcquireFailed, Acquiring) \<Rightarrow>
          if ctxDone s then Some (s\<lparr>main := Returned (Some ContextCanceled)\<rparr>) else None
      | (WaitAll, Waiting) \<Rightarrow>
          if list_all (\<lambda>sl. wgDone (stage sl)) (slots s)
          then Some (s\<lparr>main := Returned (NewAggregate (insertionErrors s))\<rparr>)
          else None
      | _ \<Rightarrow> None)"

text \<open>
  Slot \<open>i\<close>: \<open>jobRunLoaderOptions.Run\<close> with \<open>uploadJobRun\<close>, then the rest of the
  goroutine that called it.
\<close>

definition slotStep :: "jobLoaderOptions \<Rightarrow> action \<Rightarrow> nat \<Rightarrow> pipeline \<Rightarrow> pipeline option" where
  "slotStep opts a i s =
     (if i < length (slots s) then
        (case (a, stage (slots s ! i)) of
           (Read _, Reading) \<Rightarrow>
             (case readJobRunFromGCS opts (jobRunID (slots s ! i)) of
                Inl err \<Rightarrow> Some (setpc i (Returning (Some err)) s)
              | Inr None \<Rightarrow> Some (setpc i (Returning None) s)
              | Inr (Some jobRun) \<Rightarrow> Some (setpc i (Selecting jobRun) s))
         | (SelectDone _, Selecting jobRun) \<Rightarrow>
             if ctxDone s then Some (setpc i (Returning None) s) else None
         | (SelectReady _, Selecting jobRun) \<Rightarrow>
             if 0 < closes s (readyToUpload (slots s ! i)) then Some (setpc i (Uploading jobRun) s)
             else None
         | (PutRow _, Uploading jobRun) \<Rightarrow>
             (case GetProwJob jobRun of
                Inl err \<Rightarrow>
                  Some (setpc i (Returning (Some (Wrapf ''failed to upload to bigquery'' err))) s)
              | Inr prowJob \<Rightarrow>
                  (case Put opts jobRun of
                     Some err \<Rightarrow>
                       Some (setpc i (Returning (Some (Wrapf ''failed to upload to bigquery'' err))) s)
                   | None \<Rightarrow>
                       Some (setpc i (Content jobRun)
                              (s\<lparr>sink := sink s @ [jobRunID (slots s ! i)]\<rparr>))))
         | (UploadContent _, Content jobRun) \<Rightarrow>
             (case uploadContent opts jobRun of
                Some err \<Rightarrow>
                  Some (setpc i (Returning (Some (Wrapf ''failed to upload to bigquery'' err))) s)
              | None \<Rightarrow> Some (setpc i (Returning None) s))
         | (Close _, Returning r) \<Rightarrow>
             Some (setpc i (Closed r)
                    (s\<lparr>closes := (closes s)
                          (doneUploading (slots s ! i) := closes s (doneUploading (slots s ! i)) + 1)\<rparr>))
         | (Report _, Closed r) \<Rightarrow>
             Some (setpc i Reported
                    (s\<lparr>insertionErrors :=
                          insertionErrors s @ (case r of None \<Rightarrow> [] | Some err \<Rightarrow> [err])\<rparr>))
         | (Release _, Reported) \<Rightarrow>
             Some (setpc i Released (s\<lparr>tokens := tokens s - 1\<rparr>))
         | _ \<Rightarrow> None)
      else None)"

fun step :: "jobLoaderOptions \<Rightarrow> action \<Rightarrow> pipeline \<Rightarrow> pipeline option" where
  "step opts Cancel s = Some (s\<lparr>ctxDone := True\<rparr>)"
| "step opts (Read i) s = slotStep opts (Read i) i s"
| "step opts (SelectDone i) s = slotStep opts (SelectDone i) i s"
| "step opts (SelectReady i) s = slotStep opts (SelectReady i) i s"
| "step opts (PutRow i) s = slotStep opts (PutRow i) i s"
| "step opts (UploadContent i) s = slotStep opts (UploadContent i) i s"
| "step opts (Close i) s = slotStep opts (Close i) i s"
| "step opts (Report i) s = slotStep opts (Report i) i s"
| "step opts (Release i) s = slotStep opts (Release i) i s"
| "step opts a s = mainStep opts a s"

text \<open>A schedule: the steps taken, in order; \<open>None\<close> when one of them cannot be taken.\<close>

fun run :: "jobLoaderOptions \<Rightarrow> action list \<Rightarrow> pipeline \<Rightarrow> pipeline option" where
  "run opts [] s = Some s"
| "run opts (a # as) s = (case step opts a s of None \<Rightarrow> None | Some s' \<Rightarrow> run opts as s')"

text \<open>
  The head of \<open>jobLoaderOptions.Run\<close>: the last recorded job run decides the id the
  listing starts from.
\<close>

definition startingJobRunID :: "jobLoaderOptions \<Rightarrow> error + string" where
  "startingJobRunID opts =
     (case getLastJobRunWithDataFn opts (jobName opts) of
        Inl err \<Rightarrow> Inl err
      | Inr None \<Rightarrow> Inr ''0''
      | Inr (Some lastJobRunName) \<Rightarrow> Inr (NextJobRunID opts lastJobRunName))"

text \<open>
  \<open>jobLoaderOptions.Run\<close> up to its loop: an error of the lookup or of the listing is
  returned at once; otherwise the loop starts on the ids listed.
\<close>

definition jobLoaderStart :: "jobLoaderOptions \<Rightarrow> error + pipeline" where
  "jobLoaderStart opts =
     (case startingJobRunID opts of
        Inl err \<Rightarrow> Inl err
      | Inr start \<Rightarrow>
          (case ListJobRunNamesOlderThanFourHours opts (jobName opts) start of
             Inl err \<Rightarrow> Inl err
           | Inr ids \<Rightarrow> Inr (pipelineStart ids)))"

subsection \<open>The states the pipeline reaches\<close>

text \<open>
  What is said of the states the pipeline reaches. A slot holds a token from the
  \<open>Acquire\<close> that starts its goroutine to its \<open>Release\<close>.
\<close>

fun holding :: "slotpc \<Rightarrow> bool" where
  "holding NotStarted = False"
| "holding Released = False"
| "holding _ = True"

text \<open>\<open>jobRunLoaderOptions.Run\<close> has returned: its deferred \<open>close(o.doneUploading)\<close> has run.\<close>

fun gateClosed :: "slotpc \<Rightarrow> bool" where
  "gateClosed (Closed _) = True"
| "gateClosed Reported = True"
| "gateClosed Released = True"
| "gateClosed _ = False"

text \<open>
  The channels are chained: slot \<open>i\<close> waits on channel \<open>i\<close> and closes channel
  \<open>i + 1\<close>; channel 0 is the one closed before the loop.
\<close>

definition chained :: "pipeline \<Rightarrow> bool" where
  "chained s =
     (chans s = length (slots s) + 1 \<and> lastDoneUploadingCh s = length (slots s) \<and>
      (\<forall>i<length (slots s). readyToUpload (slots s ! i) = i \<and> doneUploading (slots s ! i) = Suc i))"

text \<open>
  Channel 0 has been closed once, the channel of a slot once when its \<open>Run\<close> has
  returned and not at all before, and no other channel.
\<close>

definition closedOnce :: "pipeline \<Rightarrow> bool" where
  "closedOnce s =
     (closes s 0 = 1 \<and>
      (\<forall>i<length (slots s). closes s (Suc i) = (if gateClosed (stage (slots s ! i)) then 1 else 0)) \<and>
      (\<forall>c\<ge>chans s. closes s c = 0))"

text \<open>
  Only the last slot can be without its goroutine, and only while the loop is at its
  \<open>Acquire\<close> (or has returned from it with the error of the context).
\<close>

definition started :: "pipeline \<Rightarrow> bool" where
  "started s =
     ((\<forall>i<length (slots s). stage (slots s ! i) = NotStarted \<longrightarrow>
          Suc i = length (slots s) \<and> main s \<noteq> Ranging \<and> main s \<noteq> Waiting) \<and>
      (main s = Acquiring \<longrightarrow> slots s \<noteq> [] \<and> stage (slots s ! (length (slots s) - 1)) = NotStarted))"

text \<open>The tokens taken are those of the slots that hold one; they fit the semaphore.\<close>

definition tokensHeld :: "jobLoaderOptions \<Rightarrow> pipeline \<Rightarrow> bool" where
  "tokensHeld opts s =
     (tokens s = int (length (filter (\<lambda>sl. holding (stage sl)) (slots s))) \<and>
      tokens s \<le> max 0 (numberOfConcurrentReaders opts))"

text \<open>The ids of the slots, then those still on the channel, are the ids listed.\<close>

definition idsKept :: "string list \<Rightarrow> pipeline \<Rightarrow> bool" where
  "idsKept ids s = (map jobRunID (slots s) @ jobRunProcessingCh s = ids)"

text \<open>The job run a goroutine carries from its read on.\<close>

fun carried :: "slotpc \<Rightarrow> JobRunInfo option" where
  "carried (Selecting jobRun) = Some jobRun"
| "carried (Uploading jobRun) = Some jobRun"
| "carried (Content jobRun) = Some jobRun"
| "carried _ = None"

text \<open>
  A job run carried by a slot, and every id in the sink, was read from GCS as a
  finished job run.
\<close>

definition readyOnly :: "jobLoaderOptions \<Rightarrow> pipeline \<Rightarrow> bool" where
  "readyOnly opts s =
     ((\<forall>i<length (slots s). \<forall>jobRun. carried (stage (slots s ! i)) = Some jobRun \<longrightarrow>
          readJobRunFromGCS opts (jobRunID (slots s ! i)) = Inr (Some jobRun)) \<and>
      (\<forall>r\<in>set (sink s). \<exists>jobRun. readJobRunFromGCS opts r = Inr (Some jobRun)))"

text \<open>
  \<open>jobLoaderOptions.Run\<close> waits only once the channel is drained, and has returned
  only after the context was done or every goroutine had called \<open>Done()\<close>.
\<close>

definition mainInv :: "pipeline \<Rightarrow> bool" where
  "mainInv s =
     ((main s = Waiting \<longrightarrow> jobRunProcessingCh s = []) \<and>
      (\<forall>r. main s = Returned r \<longrightarrow>
         ctxDone s \<or> (jobRunProcessingCh s = [] \<and> (\<forall>i<length (slots s). wgDone (stage (slots s ! i))))))"

text \<open>All of these together.\<close>

definition inv :: "jobLoaderOptions \<Rightarrow> string list \<Rightarrow> pipeline \<Rightarrow> bool" where
  "inv opts ids s =
     (chained s \<and> started s \<and> closedOnce s \<and> tokensHeld opts s \<and> idsKept ids s \<and>
      readyOnly opts s \<and> mainInv s)"

text \<open>A slot that has not passed its \<open>select\<close>.\<close>

fun beforeGate :: "slotpc \<Rightarrow> bool" where
  "beforeGate NotStarted = True"
| "beforeGate Reading = True"
| "beforeGate (Selecting _) = True"
| "beforeGate _ = False"

text \<open>A slot that is past \<open>jobRunInserter.Put\<close>, or has returned.\<close>

fun afterPut :: "slotpc \<Rightarrow> bool" where
  "afterPut (Content _) = True"
| "afterPut (Returning _) = True"
| "afterPut (Closed _) = True"
| "afterPut Reported = True"
| "afterPut Released = True"
| "afterPut _ = False"

text \<open>A slot between its \<open>select\<close> and \<open>jobRunInserter.Put\<close>.\<close>

fun isUploading :: "slotpc \<Rightarrow> bool" where
  "isUploading (Uploading _) = True"
| "isUploading _ = False"


text \<open>
  The rows in the sink are those of the first slots, in their order; these slots are
  past \<open>Put\<close>, the others have not passed their \<open>select\<close>, but for the next in line,
  which may be about to \<open>Put\<close>.
\<close>

definition ordered :: "pipeline \<Rightarrow> bool" where
  "ordered s =
     (length (sink s) \<le> length (slots s) \<and>
      take (length (sink s)) (map jobRunID (slots s)) = sink s \<and>
      (\<forall>i<length (slots s).
         (i < length (sink s) \<longrightarrow> afterPut (stage (slots s ! i))) \<and>
         (length (sink s) \<le> i \<longrightarrow>
            beforeGate (stage (slots s ! i)) \<or> (i = length (sink s) \<and> isUploading (stage (slots s ! i))))))"

text \<open>Every id in the sink is the id of a slot.\<close>

definition sinkKept :: "pipeline \<Rightarrow> bool" where
  "sinkKept s = (set (sink s) \<subseteq> set (map jobRunID (slots s)))"

text \<open>The steps of slot \<open>i\<close>'s goroutine.\<close>

definition slotActions :: "nat \<Rightarrow> action list" where
  "slotActions i = [Read i, SelectDone i, SelectReady i, PutRow i, UploadContent i, Close i, Report i, Release i]"

text \<open>The steps a goroutine has left at most, with the \<open>Acquire\<close> that starts it.\<close>

fun slotRank :: "slotpc \<Rightarrow> nat" where
  "slotRank NotStarted = 10"
| "slotRank Reading = 8"
| "slotRank (Selecting _) = 7"
| "slotRank (Uploading _) = 6"
| "slotRank (Content _) = 5"
| "slotRank (Returning _) = 4"
| "slotRank (Closed _) = 3"
| "slotRank Reported = 2"
| "slotRank Released = 0"

text \<open>The steps \<open>jobLoaderOptions.Run\<close> has left, those of its loop apart.\<close>

fun mainRank :: "mainpc \<Rightarrow> nat" where
  "mainRank Ranging = 2"
| "mainRank Acquiring = 1"
| "mainRank Waiting = 1"
| "mainRank (Returned _) = 0"

text \<open>A bound on the steps the pipeline has left: it falls with every step but \<open>Cancel\<close>.\<close>

definition stepsLeft :: "pipeline \<Rightarrow> nat" where
  "stepsLeft s =
     12 * length (jobRunProcessingCh s) + sum_list (map (\<lambda>sl. slotRank (stage sl)) (slots s)) +
     mainRank (main s)"

section \<open>jobrunbigqueryloader: the pool of workers\<close>

record JobRow =
  JobName :: string

text \<open>
  \<open>allJobsLoaderOptions\<close>: what \<open>Run\<close> and \<open>processJobs\<close> use.
  \<open>ciDataClient.ListAllJobs\<close> and \<open>shouldCollectedDataForJobFn\<close> are functions of their
  arguments; \<open>gcsClient\<close>, \<open>jobRunInserter\<close>, \<open>getLastJobRunWithDataFn\<close> and
  \<open>jobRunUploader\<close> are kept the way a loader holds them, as the fields of
  \<open>collaborators\<close> (its name and its number of readers are not used); \<open>jobLoaderRun\<close> is
  what \<open>jobLoader.Run(ctx)\<close> returns for a loader.
\<close>

record allJobsLoaderOptions =
  ListAllJobs :: "error + JobRow list"
  shouldCollectedDataForJobFn :: "JobRow \<Rightarrow> bool"
  collaborators :: jobLoaderOptions
  jobLoaderRun :: "jobLoaderOptions \<Rightarrow> error option"

definition newJobBigQueryLoaderOptions :: "allJobsLoaderOptions \<Rightarrow> JobRow \<Rightarrow> jobLoaderOptions" where
  "newJobBigQueryLoaderOptions opts job =
     (collaborators opts)\<lparr>jobName := JobName job, numberOfConcurrentReaders := 20\<rparr>"

text \<open>
  Where a \<open>processJobs\<close> goroutine stands: at the head of its loop over \<open>jobChan\<close>, in
  \<open>jobLoader.Run\<close> for a job, or past \<open>wg.Done()\<close>.
\<close>

datatype workerpc =
    Pulling
  | Running JobRow
  | WorkerDone

text \<open>
  The state of \<open>allJobsLoaderOptions.Run\<close> once the workers are launched: the jobs left
  in \<open>jobChan\<close> (filled and closed before), the workers, the errors in \<open>errChan\<close> and
  its capacity \<open>jobCount\<close>, and what \<open>Run\<close> has returned, if it has.
\<close>

record pool =
  jobChan :: "JobRow list"
  workers :: "workerpc list"
  errChan :: "error list"
  jobCount :: nat
  returned :: "error option option"

definition poolStart :: "JobRow list \<Rightarrow> pool" where
  "poolStart jobs =
     \<lparr>jobChan = jobs, workers = replicate 20 Pulling, errChan = [], jobCount = length jobs,
      returned = None\<rparr>"

text \<open>
  The steps: worker \<open>w\<close> receives from \<open>jobChan\<close> (\<open>Pull\<close>: the channel is drained and
  the worker ends, or the job is skipped, or its loader is run), the loader of worker
  \<open>w\<close> returns (\<open>Finish\<close>: an error is sent on \<open>errChan\<close>, which blocks while the
  buffer is full), and \<open>wg.Wait()\<close> returns (\<open>Collect\<close>: the errors are read and
  aggregated).
\<close>

datatype poolAction =
    Pull nat
  | Finish nat
  | Collect

definition poolStep :: "allJobsLoaderOptions \<Rightarrow> poolAction \<Rightarrow> pool \<Rightarrow> pool option" where
  "poolStep opts a s =
     (case a of
        Pull w \<Rightarrow>
          if w < length (workers s) \<and> workers s ! w = Pulling then
            (case jobChan s of
               [] \<Rightarrow> Some (s\<lparr>workers := (workers s)[w := WorkerDone]\<rparr>)
             | job # rest \<Rightarrow>
                 if \<not> shouldCollectedDataForJobFn opts job then Some (s\<lparr>jobChan := rest\<rparr>)
                 else Some (s\<lparr>jobChan := rest, workers := (workers s)[w := Running job]\<rparr>))
          else None
      | Finish w \<Rightarrow>
          if w < length (workers s) then
            (case workers s ! w of
               Running job \<Rightarrow>
                 (case jobLoaderRun opts (newJobBigQueryLoaderOptions opts job) of
                    None \<Rightarrow> Some (s\<lparr>workers := (workers s)[w := Pulling]\<rparr>)
                  | Some err \<Rightarrow>
                      if length (errChan s) < jobCount s
                      then Some (s\<lparr>errChan := errChan s @ [err], workers := (workers s)[w := Pulling]\<rparr>)
                      else None)
             | _ \<Rightarrow> None)
          else None
      | Collect \<Rightarrow>
          if returned s = None \<and> list_all (\<lambda>p. p = WorkerDone) (workers s)
          then Some (s\<lparr>returned := Some (NewAggregate (errChan s))\<rparr>)
          else None)"

fun poolRun :: "allJobsLoaderOptions \<Rightarrow> poolAction list \<Rightarrow> pool \<Rightarrow> pool option" where
  "poolRun opts [] s = Some s"
| "poolRun opts (a # as) s = (case poolStep opts a s of None \<Rightarrow> None | Some s' \<Rightarrow> poolRun opts as s')"

text \<open>
  \<open>allJobsLoaderOptions.Run\<close> up to the launch of the workers: a failure to list the
  jobs is returned at once.
\<close>

definition allJobsStart :: "allJobsLoaderOptions \<Rightarrow> error + pool" where
  "allJobsStart opts =
     (case ListAllJobs opts of
        Inl err \<Rightarrow> Inl (Wrapf ''failed to get jobs'' err)
      | Inr jobs \<Rightarrow> Inr (poolStart jobs))"

text \<open>The errors of the jobs of a list that are collected and fail, in the order of the list.\<close>

definition failures :: "allJobsLoaderOptions \<Rightarrow> JobRow list \<Rightarrow> error list" where
  "failures opts jobs =
     List.map_filter (\<lambda>job. if shouldCollectedDataForJobFn opts job then jobLoaderRun opts (newJobBigQueryLoaderOptions opts job) else None) jobs"

text \<open>The jobs whose loaders are running.\<close>

fun running :: "workerpc \<Rightarrow> JobRow list" where
  "running (Running job) = [job]"
| "running _ = []"

definition inFlight :: "pool \<Rightarrow> JobRow list" where
  "inFlight s = concat (map running (workers s))"

text \<open>
  What is said of the states the pool reaches: there are 20 workers; a loader runs
  only for a job that is collected; the errors sent, those of the loaders running and
  those of the jobs still queued are the errors of all the jobs that fail; the errors
  sent leave room in \<open>errChan\<close> for every loader running and every job queued; a worker
  has ended only once the queue is drained; and \<open>Run\<close> has returned only after every
  worker ended, with the aggregate of the errors sent.
\<close>

definition poolInv :: "allJobsLoaderOptions \<Rightarrow> JobRow list \<Rightarrow> pool \<Rightarrow> bool" where
  "poolInv opts jobs s =
     (length (workers s) = 20 \<and> jobCount s = length jobs \<and>
      (\<forall>w<length (workers s). \<forall>job. workers s ! w = Running job \<longrightarrow> shouldCollectedDataForJobFn opts job) \<and>
      mset (errChan s) + mset (failures opts (inFlight s)) + mset (failures opts (jobChan s)) =
        mset (failures opts jobs) \<and>
      length (errChan s) + length (inFlight s) + length (jobChan s) \<le> length jobs \<and>
      (\<forall>w<length (workers s). workers s ! w = WorkerDone \<longrightarrow> jobChan s = []) \<and>
      (returned s \<noteq> None \<longrightarrow>
         jobChan s = [] \<and> list_all (\<lambda>p. p = WorkerDone) (workers s) \<and>
         returned s = Some (NewAggregate (errChan s))))"

text \<open>The steps a worker has left at most, the jobs it may still pull apart.\<close>

fun workerRank :: "workerpc \<Rightarrow> nat" where
  "workerRank Pulling = 1"
| "workerRank (Running _) = 2"
| "workerRank WorkerDone = 0"

text \<open>A bound on the steps the pool has left: it falls with every step.\<close>

definition poolMeasure :: "pool \<Rightarrow> nat" where
  "poolMeasure s =
     2 * length (jobChan s) + sum_list (map workerRank (workers s)) +
     (if returned s = None then 1 else 0)"

subsection \<open>Examples\<close>

text \<open>A finished job run with all its content.\<close>

definition exampleJobRun :: "string \<Rightarrow> JobRunInfo" where
  "exampleJobRun jrID = \<lparr>GetJobRunID = jrID, GetProwJob = Inr \<lparr>CompletionTime = Some 1\<rparr>, GetAllContent = None\<rparr>"

text \<open>
  A loader for examples, with \<open>n\<close> concurrent readers: run 7 has no completion time
  yet, run 9 has no \<open>prowjob.json\<close>, every other run is finished; the inserter and the
  uploader accept everything; the last run recorded is 5, and runs 6, 7 and 8 are
  listed after it.
\<close>

definition exampleOpts :: "int \<Rightarrow> jobLoaderOptions" where
  "exampleOpts n =
     \<lparr>jobName = ''periodic-ci-e2e'',
      ReadJobRunFromGCS =
        (\<lambda>jrID. if jrID = ''7'' then Inr (Some \<lparr>GetJobRunID = jrID, GetProwJob = Inr \<lparr>CompletionTime = None\<rparr>, GetAllContent = None\<rparr>)
                else if jrID = ''9'' then Inr None
                else Inr (Some (exampleJobRun jrID))),
      numberOfConcurrentReaders = n,
      Put = (\<lambda>_. None),
      uploadContent = (\<lambda>_. None),
      getLastJobRunWithDataFn = (\<lambda>_. Inr (Some ''5'')),
      NextJobRunID = (\<lambda>c. if c = ''5'' then ''6'' else ''0''),
      ListJobRunNamesOlderThanFourHours = (\<lambda>_ start. if start = ''6'' then Inr [''6'', ''7'', ''8''] else Inr [])\<rparr>"

text \<open>The number a decimal id denotes.\<close>

definition runNumber :: "string \<Rightarrow> nat" where
  "runNumber r = foldl (\<lambda>n c. 10 * n + (of_char c - 48)) 0 r"


text \<open>Two runs are started and read: the first is skipped, the second waits at its \<open>select\<close>.\<close>

definition skipFirst :: "action list" where
  "skipFirst = [Recv, Acquire, Recv, Acquire, Read 1, Read 0]"

text \<open>The first run is read and its row inserted; the second id is received.\<close>

definition commitFirst :: "action list" where
  "commitFirst = [Recv, Acquire, Read 0, SelectReady 0, PutRow 0, Recv]"

text \<open>The second run is read, then the context is cancelled.\<close>

definition cancelSecond :: "action list" where
  "cancelSecond = [Recv, Acquire, Recv, Acquire, Read 1, Cancel]"

text \<open>Three runs are started, the first is uploaded, the third is read and waits.\<close>

definition secondUnfinished :: "action list" where
  "secondUnfinished =
     [Recv, Acquire, Recv, Acquire, Recv, Acquire, Read 0, SelectReady 0, PutRow 0,
      UploadContent 0, Close 0, Read 2]"

text \<open>Four jobs: two whose loaders fail, one that is not collected, one whose loader succeeds.\<close>

definition exampleJobs :: "JobRow list" where
  "exampleJobs =
     [\<lparr>JobName = ''e2e-aws''\<rparr>, \<lparr>JobName = ''e2e-gcp''\<rparr>, \<lparr>JobName = ''unit''\<rparr>,
      \<lparr>JobName = ''e2e-azure''\<rparr>]"

definition exampleAllJobs :: allJobsLoaderOptions where
  "exampleAllJobs =
     \<lparr>ListAllJobs = Inr exampleJobs,
      shouldCollectedDataForJobFn = (\<lambda>job. JobName job \<noteq> ''unit''),
      collaborators = exampleOpts 1,
      jobLoaderRun =
        (\<lambda>loader. if jobName loader = ''e2e-azure'' then None
                   else Some (Failure (jobName loader)))\<rparr>"

text \<open>Every worker receives from \<open>jobChan\<close> once.\<close>

definition everyWorkerPulls :: "poolAction list" where
  "everyWorkerPulls =
     [Pull 0, Pull 1, Pull 2, Pull 3, Pull 4, Pull 5, Pull 6, Pull 7, Pull 8, Pull 9, Pull 10,
      Pull 11, Pull 12, Pull 13, Pull 14, Pull 15, Pull 16, Pull 17, Pull 18, Pull 19]"

text \<open>
  Two workers take the first two jobs and finish them the other way round, the second
  then skips a job and runs the last; every worker finds the queue drained, and the
  errors are collected.
\<close>

definition twoWorkers :: "poolAction list" where
  "twoWorkers =
     [Pull 0, Pull 1, Finish 1, Finish 0, Pull 1, Pull 1, Finish 1] @ everyWorkerPulls @ [Collect]"

section \<open>Properties of \<open>UpsertGroup\<close>\<close>

lemmas api_defs =
  apiserver_def apiCreate_def apiGet_def apiDelete_def UpsertGroup_def IsAlreadyExists_def stored_def

lemma upsert_absent:
  "objects c (Name g) = None \<Longrightarrow> UpsertGroup apiserver g c = ((True, None), stored g [Created g] c)"
  by (simp add: api_defs)

lemma upsert_same:
  "objects c (Name g) = Some (ls, Users g) \<Longrightarrow> UpsertGroup apiserver g c = ((False, None), c)"
  by (simp add: api_defs)

lemma upsert_differs:
  "objects c (Name g) = Some (ls, us) \<Longrightarrow> us \<noteq> Users g \<Longrightarrow>
   UpsertGroup apiserver g c = ((False, None), stored g [Deleted (Name g), Created g] c)"
  by (auto simp add: api_defs)

lemma upsert_after:
  "\<exists>ls. objects (snd (UpsertGroup apiserver g c)) (Name g) = Some (ls, Users g)"
  by (cases "objects c (Name g)") (auto simp add: api_defs)

text \<open>
  C10.  Against the API server, \<open>UpsertGroup\<close> creates a group that does not exist and
  returns \<open>(true, nil)\<close>; with a group of that name whose users are equal (whatever its
  other metadata) it returns \<open>(false, nil)\<close> and leaves the cluster as it was, no
  mutation logged; with a group whose users differ it deletes and recreates; and a
  second call with the same group always returns \<open>(false, nil)\<close> and changes nothing.
\<close>

theorem UpsertGroup_idempotent:
  "(objects c (Name g) = None \<longrightarrow>
      UpsertGroup apiserver g c = ((True, None), stored g [Created g] c)) \<and>
   (\<forall>ls. objects c (Name g) = Some (ls, Users g) \<longrightarrow>
      UpsertGroup apiserver g c = ((False, None), c)) \<and>
   (\<forall>ls us. objects c (Name g) = Some (ls, us) \<and> us \<noteq> Users g \<longrightarrow>
      UpsertGroup apiserver g c = ((False, None), stored g [Deleted (Name g), Created g] c)) \<and>
   UpsertGroup apiserver g (snd (UpsertGroup apiserver g c)) =
     ((False, None), snd (UpsertGroup apiserver g c))"
proof (intro conjI allI impI)
  show "UpsertGroup apiserver g (snd (UpsertGroup apiserver g c)) =
     ((False, None), snd (UpsertGroup apiserver g c))"
    using upsert_same upsert_after by blast
qed (auto simp: upsert_absent upsert_same upsert_differs)

theorem UpsertGroup_idempotent_witness:
  "UpsertGroup apiserver \<lparr>Name = ''team'', Labels = [], Users = [''alice'']\<rparr>
     \<lparr>objects = Map.empty, mutations = []\<rparr> =
   ((True, None),
    \<lparr>objects = [''team'' \<mapsto> ([], [''alice''])],
     mutations = [Created \<lparr>Name = ''team'', Labels = [], Users = [''alice'']\<rparr>]\<rparr>) \<and>
   UpsertGroup apiserver \<lparr>Name = ''team'', Labels = [], Users = [''alice'']\<rparr>
     \<lparr>objects = [''team'' \<mapsto> ([(''owner'', ''dptp'')], [''alice''])], mutations = []\<rparr> =
   ((False, None),
    \<lparr>objects = [''team'' \<mapsto> ([(''owner'', ''dptp'')], [''alice''])], mutations = []\<rparr>) \<and>
   UpsertGroup apiserver \<lparr>Name = ''team'', Labels = [], Users = [''alice'']\<rparr>
     \<lparr>objects = [''team'' \<mapsto> ([], [''bob''])], mutations = []\<rparr> =
   ((False, None),
    \<lparr>objects = [''team'' \<mapsto> ([], [''alice''])],
     mutations = [Deleted ''team'', Created \<lparr>Name = ''team'', Labels = [], Users = [''alice'']\<rparr>]\<rparr>)"
  using
    UpsertGroup_idempotent [of "\<lparr>objects = Map.empty, mutations = []\<rparr>"
      "\<lparr>Name = ''team'', Labels = [], Users = [''alice'']\<rparr>"]
    UpsertGroup_idempotent [of
      "\<lparr>objects = [''team'' \<mapsto> ([(''owner'', ''dptp'')], [''alice''])], mutations = []\<rparr>"
      "\<lparr>Name = ''team'', Labels = [], Users = [''alice'']\<rparr>"]
    UpsertGroup_idempotent [of "\<lparr>objects = [''team'' \<mapsto> ([], [''bob''])], mutations = []\<rparr>"
      "\<lparr>Name = ''team'', Labels = [], Users = [''alice'']\<rparr>"]
  by (simp add: stored_def)

section \<open>Properties of \<open>process\<close>\<close>

lemma clones_emit: "clones (emit es st) = clones st + length (filter isClone es)"
  by (simp add: clones_def emit_def)

lemma clonesDone_emit: "clonesDone (emit es st) = clonesDone st"
  by (simp add: emit_def)

lemma effects_emit: "effects (emit es st) = effects st @ es"
  by (simp add: emit_def)

lemma prs_emit: "prs (emit es st) = prs st + length (filter isPr es)"
  by (simp add: prs_def emit_def)

lemma clones_upd: "clones (st\<lparr>clonesDone := n\<rparr>) = clones st"
  by (simp add: clones_def)

lemma prs_upd: "prs (st\<lparr>clonesDone := n\<rparr>) = prs st"
  by (simp add: prs_def)

lemma cloneAndPr_clones: "clones (snd (cloneAndPr cap md x st)) = clones st + 1"
  by (simp add: cloneAndPr_def clones_emit split: sum.splits option.splits)

lemma cloneAndPr_clonesDone: "clonesDone (snd (cloneAndPr cap md x st)) = clonesDone st"
  by (simp add: cloneAndPr_def clonesDone_emit split: sum.splits option.splits)

lemma cloneAndPr_prs: "prs (snd (cloneAndPr cap md x st)) \<le> prs st + 1"
  by (simp add: cloneAndPr_def prs_emit split: sum.splits option.splits)

lemma process_at_gate:
  "reachesGate cap cfg md \<Longrightarrow>
   \<exists>x. process cap pc cfg md st =
     (if 0 < pc \<and> pc \<le> clonesDone st then (None, st)
      else cloneAndPr cap md x (st\<lparr>clonesDone := clonesDone st + 1\<rparr>))"
  by (auto simp add: process_def reachesGate_def split: option.splits sum.splits)

lemma process_off_gate:
  "\<not> reachesGate cap cfg md \<Longrightarrow>
   clones (snd (process cap pc cfg md st)) = clones st \<and>
   clonesDone (snd (process cap pc cfg md st)) = clonesDone st"
  by (auto simp add: process_def reachesGate_def clones_emit clonesDone_emit
      split: option.splits sum.splits)

lemma process_off_gate_prs:
  "\<not> reachesGate cap cfg md \<Longrightarrow> prs (snd (process cap pc cfg md st)) = prs st"
  by (auto simp add: process_def reachesGate_def prs_emit split: option.splits sum.splits)

lemma needsClone_iff: "needsClone cap cfg md = reachesGate cap cfg md"
proof (cases "reachesGate cap cfg md")
  case True
  from process_at_gate[OF True, of 0 newClosure] obtain x where
    "process cap 0 cfg md newClosure =
       cloneAndPr cap md x (newClosure\<lparr>clonesDone := clonesDone newClosure + 1\<rparr>)"
    by auto
  then show ?thesis using True
    by (simp add: needsClone_def cloneAndPr_clones clones_upd) (simp add: clones_def newClosure_def)
next
  case False
  then show ?thesis using process_off_gate[OF False, of 0 newClosure]
    by (simp add: needsClone_def) (simp add: clones_def newClosure_def)
qed

lemma process_clones:
  "clones (snd (process cap pc cfg md st)) =
     clones st + (if needsClone cap cfg md \<and> \<not> (0 < pc \<and> pc \<le> clonesDone st) then 1 else 0)"
proof (cases "reachesGate cap cfg md")
  case True
  from process_at_gate[OF True, of pc st] obtain x where
    "process cap pc cfg md st =
     (if 0 < pc \<and> pc \<le> clonesDone st then (None, st)
      else cloneAndPr cap md x (st\<lparr>clonesDone := clonesDone st + 1\<rparr>))" by auto
  then show ?thesis using True by (simp add: needsClone_iff cloneAndPr_clones clones_upd)
next
  case False
  then show ?thesis using process_off_gate[OF False] by (simp add: needsClone_iff)
qed

lemma process_clonesDone:
  "clonesDone (snd (process cap pc cfg md st)) =
     clonesDone st + (if needsClone cap cfg md \<and> \<not> (0 < pc \<and> pc \<le> clonesDone st) then 1 else 0)"
proof (cases "reachesGate cap cfg md")
  case True
  from process_at_gate[OF True, of pc st] obtain x where
    "process cap pc cfg md st =
     (if 0 < pc \<and> pc \<le> clonesDone st then (None, st)
      else cloneAndPr cap md x (st\<lparr>clonesDone := clonesDone st + 1\<rparr>))" by auto
  then show ?thesis using True by (simp add: needsClone_iff cloneAndPr_clonesDone)
next
  case False
  then show ?thesis using process_off_gate[OF False] by (simp add: needsClone_iff)
qed

lemma process_gated:
  "0 < pc \<Longrightarrow> pc \<le> clonesDone st \<Longrightarrow> needsClone cap cfg md \<Longrightarrow>
   process cap pc cfg md st = (None, st)"
  using process_at_gate[of cap cfg md pc st] by (auto simp: needsClone_iff)

lemma process_prs:
  "prs (snd (process cap pc cfg md st)) + clones st \<le>
   prs st + clones (snd (process cap pc cfg md st))"
proof (cases "reachesGate cap cfg md")
  case True
  from process_at_gate[OF True, of pc st] obtain x where
    "process cap pc cfg md st =
     (if 0 < pc \<and> pc \<le> clonesDone st then (None, st)
      else cloneAndPr cap md x (st\<lparr>clonesDone := clonesDone st + 1\<rparr>))" by auto
  then show ?thesis
    using cloneAndPr_prs[of cap md x "st\<lparr>clonesDone := clonesDone st + 1\<rparr>"]
    by (simp add: cloneAndPr_clones clones_upd prs_upd)
next
  case False
  then show ?thesis using process_off_gate[OF False] process_off_gate_prs[OF False] by simp
qed

lemma process_match_counts:
  "inrepoMatches cap cfg md \<Longrightarrow>
   clonesDone (snd (process cap pc cfg md st)) = clonesDone st \<and>
   clones (snd (process cap pc cfg md st)) = clones st"
  by (auto simp add: process_def inrepoMatches_def clones_emit clonesDone_emit
      split: option.splits sum.splits)

lemma process_match_result:
  "inrepoMatches cap cfg md \<Longrightarrow>
   (case BuildRootImage cfg of
      None \<Rightarrow> False
    | Some bri \<Rightarrow>
        process cap pc cfg md st =
          (case marshalConfig cap
                  (cfg\<lparr>BuildRootImage :=
                         Some (bri\<lparr>ImageStreamTagReference := None, FromRepository := True\<rparr>)\<rparr>) of
             Inl e \<Rightarrow> (Some (Wrapf ''failed to marshal config'' e), st)
           | Inr serialized \<Rightarrow>
               (case writeFile cap (Filename md) serialized of
                  None \<Rightarrow>
                    (None, st\<lparr>effects := effects st @ [WroteConfig (Filename md) serialized]\<rparr>)
                | Some e \<Rightarrow>
                    (Some (Wrapf ''failed to write'' e),
                     st\<lparr>effects := effects st @ [WroteConfig (Filename md) serialized]\<rparr>))))"
  by (auto simp add: process_def inrepoMatches_def enableFromRepository_def emit_def
      split: option.splits sum.splits)

lemma processAll_snd_Cons:
  "snd (processAll cap pc ((cfg, md) # cfgs) st) =
   snd (processAll cap pc cfgs (snd (process cap pc cfg md st)))"
  by (simp split: prod.splits)

lemma processAll_general:
  "int (clones st) = clonesDone st \<Longrightarrow>
   int (clones (snd (processAll cap pc cfgs st))) = clonesDone (snd (processAll cap pc cfgs st)) \<and>
   clonesDone (snd (processAll cap pc cfgs st)) =
     (if 0 < pc then max (clonesDone st) (min pc (clonesDone st + int (needing cap cfgs)))
      else clonesDone st + int (needing cap cfgs))"
proof (induction cfgs arbitrary: st)
  case Nil
  then show ?case by (simp add: needing_def)
next
  case (Cons a cfgs)
  obtain cfg md where a: "a = (cfg, md)" by (cases a)
  let ?st1 = "snd (process cap pc cfg md st)"
  have 1: "int (clones ?st1) = clonesDone ?st1"
    using Cons.prems by (simp add: process_clones process_clonesDone)
  show ?case
    unfolding a processAll_snd_Cons using Cons.IH[OF 1]
    by (auto simp add: process_clonesDone needing_def)
qed

lemma processAll_prs:
  "prs (snd (processAll cap pc cfgs st)) + clones st \<le>
   prs st + clones (snd (processAll cap pc cfgs st))"
proof (induction cfgs arbitrary: st)
  case Nil
  then show ?case by simp
next
  case (Cons a cfgs)
  obtain cfg md where a: "a = (cfg, md)" by (cases a)
  show ?case unfolding a processAll_snd_Cons
    using Cons.IH[of "snd (process cap pc cfg md st)"] process_prs[of cap pc cfg md st]
    by linarith
qed

lemma newClosure_counts: "int (clones newClosure) = clonesDone newClosure"
  "clones newClosure = 0" "prs newClosure = 0" "clonesDone newClosure = 0"
  by (simp_all add: newClosure_def clones_def prs_def)

text \<open>
  C9.  Fed any list of configurations from a fresh closure: with a positive ceiling the
  clones made are the smaller of the ceiling and the number of configurations that need
  one (so at most the ceiling), and the pull requests are no more than the clones; once
  the counter has reached a positive ceiling, a configuration that needs a clone returns
  \<open>nil\<close> and leaves the closure untouched; with a ceiling of zero (or below) every
  configuration that needs a clone gets one; and a configuration whose in-repo config
  matches is rewritten in place whatever the ceiling and the counter: the closure clears
  \<open>ImageStreamTagReference\<close>, sets \<open>FromRepository\<close>, marshals that configuration and
  writes it to the file it was read from, as its only call; it returns \<open>nil\<close> when the
  write succeeds, the wrapped error of the write when it fails, and the wrapped error of
  the marshalling, with nothing written, when that fails; the counter and the clones are
  as they were.
\<close>

theorem pushCeiling_bounds_clones:
  "(0 < pushCeiling \<longrightarrow>
      int (clones (snd (processAll cap pushCeiling cfgs newClosure))) =
        min pushCeiling (int (needing cap cfgs)) \<and>
      prs (snd (processAll cap pushCeiling cfgs newClosure)) \<le>
        clones (snd (processAll cap pushCeiling cfgs newClosure))) \<and>
   (0 < pushCeiling \<and> pushCeiling \<le> clonesDone st \<and> needsClone cap cfg metadata \<longrightarrow>
      process cap pushCeiling cfg metadata st = (None, st)) \<and>
   (pushCeiling \<le> 0 \<longrightarrow>
      clones (snd (processAll cap pushCeiling cfgs newClosure)) = needing cap cfgs) \<and>
   (inrepoMatches cap cfg metadata \<longrightarrow>
      clonesDone (snd (process cap pushCeiling cfg metadata st)) = clonesDone st \<and>
      clones (snd (process cap pushCeiling cfg metadata st)) = clones st \<and>
      (case BuildRootImage cfg of
         None \<Rightarrow> False
       | Some bri \<Rightarrow>
           process cap pushCeiling cfg metadata st =
             (case marshalConfig cap
                     (cfg\<lparr>BuildRootImage :=
                            Some (bri\<lparr>ImageStreamTagReference := None,
                                      FromRepository := True\<rparr>)\<rparr>) of
                Inl e \<Rightarrow> (Some (Wrapf ''failed to marshal config'' e), st)
              | Inr serialized \<Rightarrow>
                  (case writeFile cap (Filename metadata) serialized of
                     None \<Rightarrow>
                       (None,
                        st\<lparr>effects :=
                             effects st @ [WroteConfig (Filename metadata) serialized]\<rparr>)
                   | Some e \<Rightarrow>
                       (Some (Wrapf ''failed to write'' e),
                        st\<lparr>effects :=
                             effects st @ [WroteConfig (Filename metadata) serialized]\<rparr>)))))"
proof -
  note g = processAll_general[OF newClosure_counts(1), of cap pushCeiling cfgs]
  have a: "0 < pushCeiling \<Longrightarrow>
      int (clones (snd (processAll cap pushCeiling cfgs newClosure))) =
        min pushCeiling (int (needing cap cfgs))"
    using g by (simp add: newClosure_counts)
  have b: "prs (snd (processAll cap pushCeiling cfgs newClosure)) \<le>
        clones (snd (processAll cap pushCeiling cfgs newClosure))"
    using processAll_prs[of cap pushCeiling cfgs newClosure] by (simp add: newClosure_counts)
  have c: "pushCeiling \<le> 0 \<Longrightarrow>
      clones (snd (processAll cap pushCeiling cfgs newClosure)) = needing cap cfgs"
    using g by (simp add: newClosure_counts)
  show ?thesis
    using a b c process_gated[of pushCeiling st cap cfg metadata]
      process_match_counts[of cap cfg metadata pushCeiling st]
      process_match_result[of cap cfg metadata pushCeiling st]
    by blast
qed

lemmas ex_defs = exampleCap_def exampleCfg_def exampleInfo_def renderConfig_def

lemma ex_needs: "needsClone exampleCap exampleCfg (exampleInfo ''installer'')"
  by (simp add: needsClone_def process_def ex_defs cloneAndPr_def emit_def clones_def newClosure_def)

lemma ex_matches: "inrepoMatches exampleCap exampleCfg (exampleInfo ''golang-1.20'')"
  by (simp add: inrepoMatches_def ex_defs)

lemma ex_matches_readOnly: "inrepoMatches readOnlyCap exampleCfg (exampleInfo ''golang-1.20'')"
  by (simp add: inrepoMatches_def readOnlyCap_def ex_defs)

lemma ex_needing:
  "needing exampleCap
     [(exampleCfg, exampleInfo ''installer''), (exampleCfg, exampleInfo ''console'')] = 2"
  by (simp add: needing_def needsClone_def process_def ex_defs cloneAndPr_def emit_def clones_def
      newClosure_def)

lemma ex_needing_mixed:
  "needing exampleCap
     [(exampleCfg, exampleInfo ''golang-1.20''), (exampleCfg, exampleInfo ''installer'')] = 1"
  by (simp add: needing_def needsClone_def process_def ex_defs cloneAndPr_def emit_def clones_def
      newClosure_def enableFromRepository_def)

theorem pushCeiling_bounds_clones_witness:
  "clones (snd (processAll exampleCap 1
      [(exampleCfg, exampleInfo ''installer''), (exampleCfg, exampleInfo ''console'')]
      newClosure)) = 1 \<and>
   process exampleCap 1 exampleCfg (exampleInfo ''installer'') \<lparr>clonesDone = 1, effects = []\<rparr> =
     (None, \<lparr>clonesDone = 1, effects = []\<rparr>) \<and>
   clones (snd (processAll exampleCap 0
      [(exampleCfg, exampleInfo ''installer''), (exampleCfg, exampleInfo ''console'')]
      newClosure)) = 2 \<and>
   clones (snd (processAll exampleCap 1
      [(exampleCfg, exampleInfo ''golang-1.20''), (exampleCfg, exampleInfo ''installer'')]
      newClosure)) = 1 \<and>
   process exampleCap 1 exampleCfg (exampleInfo ''golang-1.20'') \<lparr>clonesDone = 0, effects = []\<rparr> =
     (None,
      \<lparr>clonesDone = 0,
       effects = [WroteConfig ''config/golang-1.20.yaml''
                    ''build_root: {from_repository: true}'']\<rparr>) \<and>
   process exampleCap 1 exampleCfg (exampleInfo ''golang-1.20'') \<lparr>clonesDone = 1, effects = []\<rparr> =
     (None,
      \<lparr>clonesDone = 1,
       effects = [WroteConfig ''config/golang-1.20.yaml''
                    ''build_root: {from_repository: true}'']\<rparr>) \<and>
   process readOnlyCap 1 exampleCfg (exampleInfo ''golang-1.20'') \<lparr>clonesDone = 0, effects = []\<rparr> =
     (Some (Wrapf ''failed to write'' (Failure ''read-only file system'')),
      \<lparr>clonesDone = 0,
       effects = [WroteConfig ''config/golang-1.20.yaml''
                    ''build_root: {from_repository: true}'']\<rparr>) \<and>
   renderConfig exampleCfg =
     ''build_root: {image_stream_tag: openshift/release:golang-1.20, from_repository: false}''"
proof -
  let ?two = "[(exampleCfg, exampleInfo ''installer''), (exampleCfg, exampleInfo ''console'')]"
  let ?mixed = "[(exampleCfg, exampleInfo ''golang-1.20''), (exampleCfg, exampleInfo ''installer'')]"
  have counts:
    "clones (snd (processAll exampleCap 1 ?two newClosure)) = 1"
    "process exampleCap 1 exampleCfg (exampleInfo ''installer'') \<lparr>clonesDone = 1, effects = []\<rparr> =
       (None, \<lparr>clonesDone = 1, effects = []\<rparr>)"
    "clones (snd (processAll exampleCap 0 ?two newClosure)) = 2"
    "clones (snd (processAll exampleCap 1 ?mixed newClosure)) = 1"
    using
      pushCeiling_bounds_clones [of 1 exampleCap ?two
        "\<lparr>clonesDone = 1, effects = []\<rparr>" exampleCfg "exampleInfo ''installer''"]
      pushCeiling_bounds_clones [of 0 exampleCap ?two
        "\<lparr>clonesDone = 1, effects = []\<rparr>" exampleCfg "exampleInfo ''installer''"]
      pushCeiling_bounds_clones [of 1 exampleCap ?mixed
        "\<lparr>clonesDone = 1, effects = []\<rparr>" exampleCfg "exampleInfo ''installer''"]
      ex_needs ex_needing ex_needing_mixed
    by simp_all
  have fresh:
    "process exampleCap 1 exampleCfg (exampleInfo ''golang-1.20'') \<lparr>clonesDone = 0, effects = []\<rparr> =
     (None,
      \<lparr>clonesDone = 0,
       effects = [WroteConfig ''config/golang-1.20.yaml''
                    ''build_root: {from_repository: true}'']\<rparr>)"
    using
      pushCeiling_bounds_clones [of 1 exampleCap "[]"
        "\<lparr>clonesDone = 0, effects = []\<rparr>" exampleCfg "exampleInfo ''golang-1.20''"]
      ex_matches
    by (simp add: ex_defs)
  have full:
    "process exampleCap 1 exampleCfg (exampleInfo ''golang-1.20'') \<lparr>clonesDone = 1, effects = []\<rparr> =
     (None,
      \<lparr>clonesDone = 1,
       effects = [WroteConfig ''config/golang-1.20.yaml''
                    ''build_root: {from_repository: true}'']\<rparr>)"
    using
      pushCeiling_bounds_clones [of 1 exampleCap "[]"
        "\<lparr>clonesDone = 1, effects = []\<rparr>" exampleCfg "exampleInfo ''golang-1.20''"]
      ex_matches
    by (simp add: ex_defs)
  have failing:
    "process readOnlyCap 1 exampleCfg (exampleInfo ''golang-1.20'') \<lparr>clonesDone = 0, effects = []\<rparr> =
     (Some (Wrapf ''failed to write'' (Failure ''read-only file system'')),
      \<lparr>clonesDone = 0,
       effects = [WroteConfig ''config/golang-1.20.yaml''
                    ''build_root: {from_repository: true}'']\<rparr>)"
    using
      pushCeiling_bounds_clones [of 1 readOnlyCap "[]"
        "\<lparr>clonesDone = 0, effects = []\<rparr>" exampleCfg "exampleInfo ''golang-1.20''"]
      ex_matches_readOnly
    by (simp add: readOnlyCap_def ex_defs)
  have rendered: "renderConfig exampleCfg =
     ''build_root: {image_stream_tag: openshift/release:golang-1.20, from_repository: false}''"
    by (simp add: ex_defs)
  show ?thesis
    using counts fresh full failing rendered by (intro conjI)
qed

section \<open>Properties of the pipeline of one job\<close>

subsection \<open>The steps\<close>

lemma count_upd:
  assumes "i < length xs"
  shows "int (length (filter P (xs[i := x]))) =
         int (length (filter P xs)) + (if P x then 1 else 0) - (if P (xs ! i) then 1 else 0)"
proof -
  have a: "xs[i := x] = take i xs @ x # drop (Suc i) xs"
    using assms by (rule upd_conv_take_nth_drop)
  have b: "xs = take i xs @ xs ! i # drop (Suc i) xs"
    using assms by (rule id_take_nth_drop)
  have "int (length (filter P xs)) =
        int (length (filter P (take i xs))) + (if P (xs ! i) then 1 else 0) + int (length (filter P (drop (Suc i) xs)))"
    by (subst b) simp
  moreover have "int (length (filter P (xs[i := x]))) =
        int (length (filter P (take i xs))) + (if P x then 1 else 0) + int (length (filter P (drop (Suc i) xs)))"
    by (subst a) simp
  ultimately show ?thesis by simp
qed

lemma nth_upd_pc:
  "(xs[i := (xs ! i)\<lparr>stage := p\<rparr>]) ! j = (if i = j \<and> i < length xs then (xs ! i)\<lparr>stage := p\<rparr> else xs ! j)"
  by (cases "i < length xs") (auto simp: nth_list_update list_update_beyond)

lemma slots_setpc: "slots (setpc i p s) = (slots s)[i := (slots s ! i)\<lparr>stage := p\<rparr>]"
  by (simp add: setpc_def)

lemma setpc_fields [simp]:
  "chans (setpc i p s) = chans s" "lastDoneUploadingCh (setpc i p s) = lastDoneUploadingCh s"
  "closes (setpc i p s) = closes s" "tokens (setpc i p s) = tokens s" "ctxDone (setpc i p s) = ctxDone s"
  "sink (setpc i p s) = sink s" "insertionErrors (setpc i p s) = insertionErrors s" "main (setpc i p s) = main s"
  "jobRunProcessingCh (setpc i p s) = jobRunProcessingCh s"
  by (simp_all add: setpc_def)

lemma length_slots_setpc [simp]: "length (slots (setpc i p s)) = length (slots s)"
  by (simp add: setpc_def)

lemma slots_setpc_Nil [simp]: "slots (setpc i p s) = [] \<longleftrightarrow> slots s = []"
  by (simp add: setpc_def)

lemma pc_setpc [simp]:
  "j < length (slots s) \<Longrightarrow> stage (slots (setpc i p s) ! j) = (if j = i then p else stage (slots s ! j))"
  by (simp add: setpc_def nth_list_update)

lemma other_setpc [simp]:
  "jobRunID (slots (setpc i p s) ! j) = jobRunID (slots s ! j)"
  "readyToUpload (slots (setpc i p s) ! j) = readyToUpload (slots s ! j)"
  "doneUploading (slots (setpc i p s) ! j) = doneUploading (slots s ! j)"
  by (simp_all add: setpc_def nth_upd_pc)

lemma map_jobRunID_setpc [simp]: "map jobRunID (slots (setpc i p s)) = map jobRunID (slots s)"
  by (rule nth_equalityI) simp_all

lemma count_setpc:
  "i < length (slots s) \<Longrightarrow>
   int (length (filter (\<lambda>sl. P (stage sl)) (slots (setpc i p s)))) =
   int (length (filter (\<lambda>sl. P (stage sl)) (slots s))) + (if P p then 1 else 0) -
     (if P (stage (slots s ! i)) then 1 else 0)"
  by (simp add: setpc_def count_upd)

lemma step_Recv:
  "step opts Recv s = Some s' \<longleftrightarrow>
     main s = Ranging \<and>
     (jobRunProcessingCh s = [] \<and> s' = s\<lparr>main := Waiting\<rparr> \<or>
      (\<exists>jrID rest. jobRunProcessingCh s = jrID # rest \<and>
         s' = s\<lparr>jobRunProcessingCh := rest,
                 slots := slots s @
                   [\<lparr>jobRunID = jrID, readyToUpload = lastDoneUploadingCh s,
                     doneUploading = chans s, stage = NotStarted\<rparr>],
                 lastDoneUploadingCh := chans s,
                 chans := chans s + 1,
                 main := Acquiring\<rparr>))"
  by (auto simp: mainStep_def split: mainpc.splits list.splits)

lemma step_Acquire:
  "step opts Acquire s = Some s' \<longleftrightarrow>
     main s = Acquiring \<and> tokens s + 1 \<le> numberOfConcurrentReaders opts \<and> slots s \<noteq> [] \<and>
     s' = setpc (length (slots s) - 1) Reading (s\<lparr>tokens := tokens s + 1, main := Ranging\<rparr>)"
  by (auto simp: mainStep_def split: mainpc.splits)

lemma step_AcquireFailed:
  "step opts AcquireFailed s = Some s' \<longleftrightarrow>
     main s = Acquiring \<and> ctxDone s \<and> s' = s\<lparr>main := Returned (Some ContextCanceled)\<rparr>"
  by (auto simp: mainStep_def split: mainpc.splits)

lemma step_WaitAll:
  "step opts WaitAll s = Some s' \<longleftrightarrow>
     main s = Waiting \<and> list_all (\<lambda>sl. wgDone (stage sl)) (slots s) \<and>
     s' = s\<lparr>main := Returned (NewAggregate (insertionErrors s))\<rparr>"
  by (auto simp: mainStep_def split: mainpc.splits)

lemma step_Cancel: "step opts Cancel s = Some s' \<longleftrightarrow> s' = s\<lparr>ctxDone := True\<rparr>"
  by auto

lemma step_Read:
  "step opts (Read i) s = Some s' \<longleftrightarrow>
     i < length (slots s) \<and> stage (slots s ! i) = Reading \<and>
     ((\<exists>err. readJobRunFromGCS opts (jobRunID (slots s ! i)) = Inl err \<and>
             s' = setpc i (Returning (Some err)) s) \<or>
      (readJobRunFromGCS opts (jobRunID (slots s ! i)) = Inr None \<and>
             s' = setpc i (Returning None) s) \<or>
      (\<exists>jobRun. readJobRunFromGCS opts (jobRunID (slots s ! i)) = Inr (Some jobRun) \<and>
             s' = setpc i (Selecting jobRun) s))"
  by (auto simp: slotStep_def split: slotpc.splits sum.splits option.splits)

lemma step_SelectDone:
  "step opts (SelectDone i) s = Some s' \<longleftrightarrow>
     i < length (slots s) \<and> (\<exists>jobRun. stage (slots s ! i) = Selecting jobRun) \<and> ctxDone s \<and>
     s' = setpc i (Returning None) s"
  by (auto simp: slotStep_def split: slotpc.splits)

lemma step_SelectReady:
  "step opts (SelectReady i) s = Some s' \<longleftrightarrow>
     i < length (slots s) \<and> 0 < closes s (readyToUpload (slots s ! i)) \<and>
     (\<exists>jobRun. stage (slots s ! i) = Selecting jobRun \<and> s' = setpc i (Uploading jobRun) s)"
  by (auto simp: slotStep_def split: slotpc.splits)

lemma step_PutRow:
  "step opts (PutRow i) s = Some s' \<longleftrightarrow>
     i < length (slots s) \<and>
     (\<exists>jobRun. stage (slots s ! i) = Uploading jobRun \<and>
        ((\<exists>err. GetProwJob jobRun = Inl err \<and>
            s' = setpc i (Returning (Some (Wrapf ''failed to upload to bigquery'' err))) s) \<or>
         (\<exists>prowJob err. GetProwJob jobRun = Inr prowJob \<and> Put opts jobRun = Some err \<and>
            s' = setpc i (Returning (Some (Wrapf ''failed to upload to bigquery'' err))) s) \<or>
         (\<exists>prowJob. GetProwJob jobRun = Inr prowJob \<and> Put opts jobRun = None \<and>
            s' = setpc i (Content jobRun) (s\<lparr>sink := sink s @ [jobRunID (slots s ! i)]\<rparr>))))"
  by (auto simp: slotStep_def split: slotpc.splits sum.splits option.splits)

lemma step_UploadContent:
  "step opts (UploadContent i) s = Some s' \<longleftrightarrow>
     i < length (slots s) \<and>
     (\<exists>jobRun. stage (slots s ! i) = Content jobRun \<and>
        ((\<exists>err. uploadContent opts jobRun = Some err \<and>
            s' = setpc i (Returning (Some (Wrapf ''failed to upload to bigquery'' err))) s) \<or>
         (uploadContent opts jobRun = None \<and> s' = setpc i (Returning None) s)))"
  by (auto simp: slotStep_def split: slotpc.splits option.splits)

lemma step_Close:
  "step opts (Close i) s = Some s' \<longleftrightarrow>
     i < length (slots s) \<and>
     (\<exists>r. stage (slots s ! i) = Returning r \<and>
        s' = setpc i (Closed r)
               (s\<lparr>closes := (closes s)
                     (doneUploading (slots s ! i) := closes s (doneUploading (slots s ! i)) + 1)\<rparr>))"
  by (auto simp: slotStep_def split: slotpc.splits)

lemma step_Report:
  "step opts (Report i) s = Some s' \<longleftrightarrow>
     i < length (slots s) \<and>
     (\<exists>r. stage (slots s ! i) = Closed r \<and>
        s' = setpc i Reported
               (s\<lparr>insertionErrors :=
                     insertionErrors s @ (case r of None \<Rightarrow> [] | Some err \<Rightarrow> [err])\<rparr>))"
  by (auto simp: slotStep_def split: slotpc.splits)

lemma step_Release:
  "step opts (Release i) s = Some s' \<longleftrightarrow>
     i < length (slots s) \<and> stage (slots s ! i) = Reported \<and>
     s' = setpc i Released (s\<lparr>tokens := tokens s - 1\<rparr>)"
  by (auto simp: slotStep_def split: slotpc.splits)

lemmas step_iffs = step_Recv step_Acquire step_AcquireFailed step_WaitAll step_Cancel step_Read
  step_SelectDone step_SelectReady step_PutRow step_UploadContent step_Close step_Report step_Release

subsection \<open>What every step keeps\<close>

lemma chained_step: "step opts a s = Some s' \<Longrightarrow> chained s \<Longrightarrow> chained s'"
  by (cases a)
     (auto simp: step_iffs chained_def nth_append simp del: step.simps)

lemma started_step: "step opts a s = Some s' \<Longrightarrow> started s \<Longrightarrow> started s'"
  by (cases a)
     (auto simp: step_iffs started_def nth_append less_Suc_eq simp del: step.simps split: if_splits)

lemma closedOnce_step:
  "step opts a s = Some s' \<Longrightarrow> chained s \<Longrightarrow> started s \<Longrightarrow> closedOnce s \<Longrightarrow> closedOnce s'"
  by (cases a)
     (auto simp: step_iffs chained_def started_def closedOnce_def nth_append less_Suc_eq
           simp del: step.simps split: if_splits)

lemma tokensHeld_step:
  "step opts a s = Some s' \<Longrightarrow> started s \<Longrightarrow> tokensHeld opts s \<Longrightarrow> tokensHeld opts s'"
  by (cases a)
     (auto simp: step_iffs started_def tokensHeld_def count_setpc simp del: step.simps)

lemma idsKept_step: "step opts a s = Some s' \<Longrightarrow> idsKept ids s \<Longrightarrow> idsKept ids s'"
  by (cases a) (auto simp: step_iffs idsKept_def simp del: step.simps)

lemma readyOnly_step: "step opts a s = Some s' \<Longrightarrow> readyOnly opts s \<Longrightarrow> readyOnly opts s'"
  by (cases a)
     (auto simp: step_iffs readyOnly_def nth_append less_Suc_eq simp del: step.simps split: if_splits)

lemma mainInv_step: "step opts a s = Some s' \<Longrightarrow> mainInv s \<Longrightarrow> mainInv s'"
  by (cases a)
     (auto simp: step_iffs mainInv_def list_all_length simp del: step.simps split: if_splits)

lemma inv_start: "inv opts ids (pipelineStart ids)"
  by (simp add: inv_def pipelineStart_def chained_def started_def closedOnce_def tokensHeld_def
      idsKept_def readyOnly_def mainInv_def)

lemma inv_step:
  assumes "step opts a s = Some s'" "inv opts ids s"
  shows "inv opts ids s'"
  using assms(2) chained_step[OF assms(1)] started_step[OF assms(1)] closedOnce_step[OF assms(1)]
    tokensHeld_step[OF assms(1)] idsKept_step[OF assms(1)] readyOnly_step[OF assms(1)]
    mainInv_step[OF assms(1)]
  by (simp add: inv_def)

lemma inv_run: "run opts sched s = Some s' \<Longrightarrow> inv opts ids s \<Longrightarrow> inv opts ids s'"
proof (induction sched arbitrary: s)
  case Nil
  then show ?case by simp
next
  case (Cons a sched)
  then show ?case by (auto split: option.splits dest: inv_step simp del: step.simps)
qed

lemma inv_reachable: "run opts sched (pipelineStart ids) = Some s \<Longrightarrow> inv opts ids s"
  using inv_run inv_start by blast

lemma holding_iff: "holding p \<longleftrightarrow> p \<noteq> NotStarted \<and> p \<noteq> Released"
  by (cases p) auto

lemma id_in_slots: "i < length (slots s) \<Longrightarrow> jobRunID (slots s ! i) \<in> set (map jobRunID (slots s))"
  by (metis length_map nth_map nth_mem)

lemma sinkKept_step: "step opts a s = Some s' \<Longrightarrow> sinkKept s \<Longrightarrow> sinkKept s'"
  by (cases a) (auto simp: step_iffs sinkKept_def id_in_slots simp del: step.simps set_map)

lemma sinkKept_run: "run opts sched s = Some s' \<Longrightarrow> sinkKept s \<Longrightarrow> sinkKept s'"
proof (induction sched arbitrary: s)
  case Nil
  then show ?case by simp
next
  case (Cons a sched)
  then show ?case by (auto split: option.splits dest: sinkKept_step simp del: step.simps)
qed

subsection \<open>The order of the rows\<close>

lemma ready_prow:
  "readJobRunFromGCS opts r = Inr (Some jobRun) \<Longrightarrow> \<exists>prowJob. GetProwJob jobRun = Inr prowJob"
  by (auto simp: readJobRunFromGCS_def split: sum.splits option.splits if_splits)


lemma ordered_cong: "sink s' = sink s \<Longrightarrow> slots s' = slots s \<Longrightarrow> ordered s' = ordered s"
  by (simp add: ordered_def)





















subsection \<open>Gates and progress\<close>

lemma sum_list_upd:
  "w < length ws \<Longrightarrow> sum_list (map f (ws[w := p])) + f (ws ! w) = sum_list (map f ws) + (f p :: nat)"
proof (induction ws arbitrary: w)
  case Nil
  then show ?case by simp
next
  case (Cons a ws)
  then show ?case by (cases w) auto
qed

lemma rank_setpc:
  "i < length (slots s) \<Longrightarrow>
   sum_list (map (\<lambda>sl. slotRank (stage sl)) (slots (setpc i p s))) + slotRank (stage (slots s ! i)) =
   sum_list (map (\<lambda>sl. slotRank (stage sl)) (slots s)) + slotRank p"
  using sum_list_upd[of i "slots s" "\<lambda>sl. slotRank (stage sl)" "(slots s ! i)\<lparr>stage := p\<rparr>"]
  by (simp add: setpc_def)

lemma stepsLeft_slot:
  assumes "i < length (slots s)" "slotRank p < slotRank (stage (slots s ! i))"
    "slots s1 = slots s" "jobRunProcessingCh s1 = jobRunProcessingCh s" "main s1 = main s"
  shows "stepsLeft (setpc i p s1) < stepsLeft s"
  using rank_setpc[of i s1 p] assms by (simp add: stepsLeft_def)

lemma stepsLeft_step:
  assumes "step opts a s = Some s'" "a \<noteq> Cancel" "started s"
  shows "stepsLeft s' < stepsLeft s"
proof (cases a)
  case Recv
  then show ?thesis using assms(1) by (auto simp: step_Recv stepsLeft_def simp del: step.simps)
next
  case Acquire
  let ?i = "length (slots s) - 1"
  have a: "main s = Acquiring" "slots s \<noteq> []"
    "s' = setpc ?i Reading (s\<lparr>tokens := tokens s + 1, main := Ranging\<rparr>)"
    using assms(1) Acquire by (auto simp: step_Acquire simp del: step.simps)
  have c: "stage (slots s ! ?i) = NotStarted" using assms(3) a by (simp add: started_def)
  have i: "?i < length (slots s)" using a by simp
  show ?thesis
    using rank_setpc[of ?i "s\<lparr>tokens := tokens s + 1, main := Ranging\<rparr>" Reading] i c a
    by (simp add: stepsLeft_def)
next
  case AcquireFailed
  then show ?thesis using assms(1) by (auto simp: step_AcquireFailed stepsLeft_def simp del: step.simps)
next
  case WaitAll
  then show ?thesis using assms(1) by (auto simp: step_WaitAll stepsLeft_def simp del: step.simps)
next
  case Cancel
  then show ?thesis using assms by simp
next
  case (Read i)
  then show ?thesis using assms(1)
    by (auto simp: step_Read simp del: step.simps intro!: stepsLeft_slot)
next
  case (SelectDone i)
  then show ?thesis using assms(1)
    by (auto simp: step_SelectDone simp del: step.simps intro!: stepsLeft_slot)
next
  case (SelectReady i)
  then show ?thesis using assms(1)
    by (auto simp: step_SelectReady simp del: step.simps intro!: stepsLeft_slot)
next
  case (PutRow i)
  then show ?thesis using assms(1)
    by (auto simp: step_PutRow simp del: step.simps intro!: stepsLeft_slot)
next
  case (UploadContent i)
  then show ?thesis using assms(1)
    by (auto simp: step_UploadContent simp del: step.simps intro!: stepsLeft_slot)
next
  case (Close i)
  then show ?thesis using assms(1)
    by (auto simp: step_Close simp del: step.simps intro!: stepsLeft_slot)
next
  case (Report i)
  then show ?thesis using assms(1)
    by (auto simp: step_Report simp del: step.simps intro!: stepsLeft_slot)
next
  case (Release i)
  then show ?thesis using assms(1)
    by (auto simp: step_Release simp del: step.simps intro!: stepsLeft_slot)
qed

lemma stepsLeft_run:
  "run opts sched s = Some s' \<Longrightarrow> inv opts ids s \<Longrightarrow>
   length (filter (\<lambda>a. a \<noteq> Cancel) sched) + stepsLeft s' \<le> stepsLeft s"
proof (induction sched arbitrary: s)
  case Nil
  then show ?case by simp
next
  case (Cons a sched)
  then obtain s1 where 1: "step opts a s = Some s1" "run opts sched s1 = Some s'"
    by (auto split: option.splits simp del: step.simps)
  have i1: "inv opts ids s1" using inv_step[OF 1(1) Cons.prems(2)] .
  note ih = Cons.IH[OF 1(2) i1]
  show ?case
  proof (cases "a = Cancel")
    case True
    then have "stepsLeft s1 = stepsLeft s" using 1(1) by (auto simp: stepsLeft_def)
    then show ?thesis using ih True by simp
  next
    case False
    have "started s" using Cons.prems(2) by (simp add: inv_def)
    then show ?thesis using ih False stepsLeft_step[OF 1(1) False] by simp
  qed
qed

lemma stepsLeft_start: "stepsLeft (pipelineStart ids) = 12 * length ids + 2"
  by (simp add: stepsLeft_def pipelineStart_def)

lemma slot_progress:
  assumes "chained s" "closedOnce s" "started s"
  shows "i < length (slots s) \<Longrightarrow> stage (slots s ! i) \<noteq> NotStarted \<Longrightarrow> stage (slots s ! i) \<noteq> Released \<Longrightarrow>
         \<exists>j\<le>i. \<exists>a\<in>set (slotActions j). step opts a s \<noteq> None"
proof (induction i)
  case 0
  have c: "0 < closes s (readyToUpload (slots s ! 0))"
    using assms(1,2) 0(1) by (simp add: chained_def closedOnce_def)
  have "\<exists>a\<in>set (slotActions 0). step opts a s \<noteq> None"
    using 0 c
    by (cases "stage (slots s ! 0)")
       (auto simp: slotActions_def slotStep_def split: sum.splits option.splits)
  then show ?case by blast
next
  case (Suc i)
  have i: "i < length (slots s)" using Suc.prems(1) by simp
  show ?case
  proof (cases "\<exists>jobRun. stage (slots s ! Suc i) = Selecting jobRun \<and> \<not> gateClosed (stage (slots s ! i))")
    case True
    have "stage (slots s ! i) \<noteq> NotStarted"
    proof
      assume "stage (slots s ! i) = NotStarted"
      then have "Suc i = length (slots s)" using assms(3) i by (simp add: started_def)
      then show False using Suc.prems(1) by simp
    qed
    moreover have "stage (slots s ! i) \<noteq> Released" using True by auto
    ultimately obtain j a where "j \<le> i" "a \<in> set (slotActions j)" "step opts a s \<noteq> None"
      using Suc.IH[OF i] by blast
    then show ?thesis by (meson le_SucI)
  next
    case False
    have r: "readyToUpload (slots s ! Suc i) = Suc i"
      using assms(1) Suc.prems(1) by (simp add: chained_def)
    have c: "closes s (Suc i) = (if gateClosed (stage (slots s ! i)) then 1 else 0)"
      using assms(2) i by (simp add: closedOnce_def)
    have "\<exists>a\<in>set (slotActions (Suc i)). step opts a s \<noteq> None"
      using Suc.prems False r c
      by (cases "stage (slots s ! Suc i)")
         (auto simp: slotActions_def slotStep_def split: sum.splits option.splits)
    then show ?thesis by blast
  qed
qed

lemma successor_passes:
  assumes "chained s" "closedOnce s" "Suc i < length (slots s)" "gateClosed (stage (slots s ! i))"
    "stage (slots s ! Suc i) = Selecting jobRun"
  shows "step opts (SelectReady (Suc i)) s = Some (setpc (Suc i) (Uploading jobRun) s)"
proof -
  have "readyToUpload (slots s ! Suc i) = Suc i"
    using assms(1,3) by (simp add: chained_def)
  moreover have "closes s (Suc i) = 1"
    using assms(2,3,4) by (simp add: closedOnce_def)
  ultimately show ?thesis using assms(3,5) by (simp add: slotStep_def)
qed

lemma close_step:
  assumes "chained s" "closedOnce s" "i < length (slots s)" "stage (slots s ! i) = Returning r"
  shows "step opts (Close i) s =
     Some (setpc i (Closed r) (s\<lparr>closes := (closes s)(doneUploading (slots s ! i) := 1)\<rparr>))"
proof -
  have "doneUploading (slots s ! i) = Suc i" using assms(1,3) by (simp add: chained_def)
  moreover have "closes s (Suc i) = 0" using assms(2,3,4) by (simp add: closedOnce_def)
  ultimately show ?thesis using assms(3,4) by (simp add: slotStep_def)
qed

lemma closes_count:
  assumes "chained s" "closedOnce s" "i < length (slots s)"
  shows "closes s (doneUploading (slots s ! i)) = (if gateClosed (stage (slots s ! i)) then 1 else 0)"
  using assms by (simp add: chained_def closedOnce_def)

text \<open>
  C2.  In every state the pipeline reaches: the \<open>doneUploading\<close> of a slot has been
  closed once when its \<open>Run\<close> has returned and not at all before; a slot at its return
  closes it, whatever it returns; a slot that has started and not ended is never stuck
  for good, it or a slot before it can take a step; once the gate of a slot is closed,
  its successor waiting at its \<open>select\<close> passes; and the steps taken, cancellations
  apart, and the steps left are together at most 12 for each run listed and 2 more.
\<close>

theorem gate_closed_exactly_once:
  "run opts sched (pipelineStart ids) = Some s \<Longrightarrow>
   (\<forall>i<length (slots s).
      closes s (doneUploading (slots s ! i)) = (if gateClosed (stage (slots s ! i)) then 1 else 0) \<and>
      (\<forall>r. stage (slots s ! i) = Returning r \<longrightarrow>
         step opts (Close i) s =
           Some (setpc i (Closed r) (s\<lparr>closes := (closes s)(doneUploading (slots s ! i) := 1)\<rparr>))) \<and>
      (stage (slots s ! i) \<noteq> NotStarted \<and> stage (slots s ! i) \<noteq> Released \<longrightarrow>
         (\<exists>j\<le>i. \<exists>a\<in>set (slotActions j). step opts a s \<noteq> None)) \<and>
      (\<forall>jobRun. Suc i < length (slots s) \<and> gateClosed (stage (slots s ! i)) \<and>
           stage (slots s ! Suc i) = Selecting jobRun \<longrightarrow>
         step opts (SelectReady (Suc i)) s = Some (setpc (Suc i) (Uploading jobRun) s))) \<and>
   length (filter (\<lambda>a. a \<noteq> Cancel) sched) + stepsLeft s \<le> 12 * length ids + 2"
proof -
  assume run: "run opts sched (pipelineStart ids) = Some s"
  then have "inv opts ids s" by (rule inv_reachable)
  then have i: "chained s" "closedOnce s" "started s" by (simp_all add: inv_def)
  have m: "length (filter (\<lambda>a. a \<noteq> Cancel) sched) + stepsLeft s \<le> 12 * length ids + 2"
    using stepsLeft_run[OF run inv_start] by (simp add: stepsLeft_start)
  show ?thesis
    using m closes_count[OF i(1,2)] close_step[OF i(1,2)] slot_progress[OF i, of _ opts]
      successor_passes[OF i(1,2), of _ _ opts]
    by (intro conjI allI impI) blast+
qed

lemma setpc_setpc [simp]: "setpc i p (setpc i q s) = setpc i p s"
  by (cases "i < length (slots s)") (simp_all add: setpc_def list_update_beyond)

lemma setpc_upd [simp]:
  "(setpc i p s)\<lparr>closes := c\<rparr> = setpc i p (s\<lparr>closes := c\<rparr>)"
  "(setpc i p s)\<lparr>tokens := t\<rparr> = setpc i p (s\<lparr>tokens := t\<rparr>)"
  "(setpc i p s)\<lparr>sink := k\<rparr> = setpc i p (s\<lparr>sink := k\<rparr>)"
  "(setpc i p s)\<lparr>insertionErrors := e\<rparr> = setpc i p (s\<lparr>insertionErrors := e\<rparr>)"
  by (simp_all add: setpc_def)

lemma slot_upd [simp]:
  "slots (s\<lparr>closes := c\<rparr>) = slots s" "slots (s\<lparr>tokens := t\<rparr>) = slots s"
  by simp_all

subsection \<open>Tokens\<close>

text \<open>
  C3.  The token of a slot is held until its goroutine ends: in every state the
  pipeline reaches, the tokens taken are as many as the slots that have started and
  not released theirs, whether they read, wait at their \<open>select\<close> or upload, and they
  are no more than the number of concurrent readers; a slot can release its token when
  its \<open>Run\<close> has returned and its error is reported, and at no other moment.
\<close>

theorem token_held_until_release:
  "run opts sched (pipelineStart ids) = Some s \<Longrightarrow>
   tokens s = int (length (filter (\<lambda>sl. stage sl \<noteq> NotStarted \<and> stage sl \<noteq> Released) (slots s))) \<and>
   tokens s \<le> max 0 (numberOfConcurrentReaders opts) \<and>
   (\<forall>i<length (slots s).
      step opts (Release i) s =
        (if stage (slots s ! i) = Reported then Some (setpc i Released (s\<lparr>tokens := tokens s - 1\<rparr>))
         else None))"
proof -
  assume run: "run opts sched (pipelineStart ids) = Some s"
  have "\<forall>i<length (slots s).
      step opts (Release i) s =
        (if stage (slots s ! i) = Reported then Some (setpc i Released (s\<lparr>tokens := tokens s - 1\<rparr>))
         else None)"
    by (auto simp: slotStep_def split: slotpc.splits)
  then show ?thesis
    using inv_reachable[OF run] by (simp add: inv_def tokensHeld_def holding_iff)
qed

subsection \<open>Cancellation\<close>

text \<open>
  C4.  A slot waiting at its \<open>select\<close> leaves it through \<open>ctx.Done()\<close> when the
  context is done, and cannot otherwise; it then returns \<open>nil\<close>: after its return, the
  close of its \<open>doneUploading\<close> and its report, the gate is closed once more than
  before, and the sink and the insertion errors are as they were.
\<close>

theorem cancelled_slot_returns_nil:
  "i < length (slots s) \<Longrightarrow> stage (slots s ! i) = Selecting jobRun \<Longrightarrow>
   step opts (SelectDone i) s = (if ctxDone s then Some (setpc i (Returning None) s) else None) \<and>
   (ctxDone s \<longrightarrow>
      run opts [SelectDone i, Close i, Report i] s =
        Some (setpc i Reported
               (s\<lparr>closes := (closes s)
                     (doneUploading (slots s ! i) := closes s (doneUploading (slots s ! i)) + 1)\<rparr>)))"
  by (simp add: slotStep_def)

subsection \<open>Runs that are skipped\<close>

lemma skipped_slot:
  assumes "chained s" "closedOnce s" "i < length (slots s)" "stage (slots s ! i) = Reading"
    "readJobRunFromGCS opts (jobRunID (slots s ! i)) = Inr None"
  shows "run opts [Read i, Close i, Report i, Release i] s =
     Some (setpc i Released
            (s\<lparr>closes := (closes s)(doneUploading (slots s ! i) := 1), tokens := tokens s - 1\<rparr>))"
proof -
  have "doneUploading (slots s ! i) = Suc i" using assms(1,3) by (simp add: chained_def)
  moreover have "closes s (Suc i) = 0" using assms(2,3,4) by (simp add: closedOnce_def)
  ultimately show ?thesis using assms(3,4,5) by (simp add: slotStep_def)
qed

lemma next_writes:
  assumes "chained s" "closedOnce s" "readyOnly opts s" "Suc i < length (slots s)"
    "gateClosed (stage (slots s ! i))" "stage (slots s ! Suc i) = Selecting jobRun" "Put opts jobRun = None"
  shows "run opts [SelectReady (Suc i), PutRow (Suc i)] s =
     Some (setpc (Suc i) (Content jobRun) (s\<lparr>sink := sink s @ [jobRunID (slots s ! Suc i)]\<rparr>))"
proof -
  have "readJobRunFromGCS opts (jobRunID (slots s ! Suc i)) = Inr (Some jobRun)"
    using assms(3,4,6) by (simp add: readyOnly_def)
  then obtain prowJob where "GetProwJob jobRun = Inr prowJob" using ready_prow by blast
  then show ?thesis
    using successor_passes[OF assms(1,2,4,5,6), of opts] assms(4,7)
    by (simp add: slotStep_def del: step.simps) (simp add: slotStep_def)
qed

lemma classify:
  "readJobRunFromGCS opts r = Inr None \<longleftrightarrow>
     ReadJobRunFromGCS opts r = Inr None \<or>
     (\<exists>jobRun prowJob. ReadJobRunFromGCS opts r = Inr (Some jobRun) \<and>
        GetProwJob jobRun = Inr prowJob \<and> CompletionTime prowJob = None)"
  by (auto simp: readJobRunFromGCS_def split: sum.splits option.splits)

text \<open>
  C5.  \<open>readJobRunFromGCS\<close> returns no job run and no error exactly when there is no
  \<open>prowjob.json\<close> or the prowjob has no completion time.  In every state the pipeline
  reaches: a slot reading such a run goes on to its end, leaving the sink and the
  insertion errors as they were and its gate closed; when the gate of a slot is closed
  and its successor waits at its \<open>select\<close> with a row the inserter accepts, the
  successor passes and its row is appended to the sink; and every id in the sink was
  read as a finished job run.
\<close>

theorem skipped_runs_write_nothing:
  "run opts sched (pipelineStart ids) = Some s \<Longrightarrow>
   (\<forall>r. readJobRunFromGCS opts r = Inr None \<longleftrightarrow>
      ReadJobRunFromGCS opts r = Inr None \<or>
      (\<exists>jobRun prowJob. ReadJobRunFromGCS opts r = Inr (Some jobRun) \<and>
         GetProwJob jobRun = Inr prowJob \<and> CompletionTime prowJob = None)) \<and>
   (\<forall>i<length (slots s).
      stage (slots s ! i) = Reading \<and> readJobRunFromGCS opts (jobRunID (slots s ! i)) = Inr None \<longrightarrow>
      run opts [Read i, Close i, Report i, Release i] s =
        Some (setpc i Released
               (s\<lparr>closes := (closes s)(doneUploading (slots s ! i) := 1),
                  tokens := tokens s - 1\<rparr>))) \<and>
   (\<forall>i jobRun.
      Suc i < length (slots s) \<and> gateClosed (stage (slots s ! i)) \<and>
      stage (slots s ! Suc i) = Selecting jobRun \<and> Put opts jobRun = None \<longrightarrow>
      run opts [SelectReady (Suc i), PutRow (Suc i)] s =
        Some (setpc (Suc i) (Content jobRun) (s\<lparr>sink := sink s @ [jobRunID (slots s ! Suc i)]\<rparr>))) \<and>
   (\<forall>r\<in>set (sink s). \<exists>jobRun. readJobRunFromGCS opts r = Inr (Some jobRun))"
proof -
  assume run: "run opts sched (pipelineStart ids) = Some s"
  then have "inv opts ids s" by (rule inv_reachable)
  then have i: "chained s" "closedOnce s" "readyOnly opts s" by (simp_all add: inv_def)
  have r: "\<forall>r\<in>set (sink s). \<exists>jobRun. readJobRunFromGCS opts r = Inr (Some jobRun)"
    using i(3) by (simp add: readyOnly_def)
  show ?thesis
    using r classify[of opts] skipped_slot[OF i(1,2), of _ opts] next_writes[OF i]
    by (intro conjI allI impI) blast+
qed

subsection \<open>The id the listing starts from\<close>

text \<open>
  C6.  The id the listing starts from is \<open>"0"\<close> when no run is recorded and
  \<open>NextJobRunID\<close> of the name of the last recorded run otherwise; an error of the
  lookup is returned; the pipeline runs on the ids listed from that id.  Hence, for
  any numbering \<open>num\<close> of the ids under which \<open>NextJobRunID\<close> of the last recorded name
  is greater than that name, and the ids listed are not below the id the listing
  starts from: every slot and every row in the sink has an id greater than the last
  recorded run.
\<close>

theorem resume_after_last_recorded_run:
  "(getLastJobRunWithDataFn opts (jobName opts) = Inr None \<longrightarrow> startingJobRunID opts = Inr ''0'') \<and>
   (\<forall>lastName. getLastJobRunWithDataFn opts (jobName opts) = Inr (Some lastName) \<longrightarrow>
      startingJobRunID opts = Inr (NextJobRunID opts lastName)) \<and>
   (\<forall>err. getLastJobRunWithDataFn opts (jobName opts) = Inl err \<longrightarrow> jobLoaderStart opts = Inl err) \<and>
   (\<forall>start. startingJobRunID opts = Inr start \<longrightarrow>
      jobLoaderStart opts =
        (case ListJobRunNamesOlderThanFourHours opts (jobName opts) start of
           Inl err \<Rightarrow> Inl err
         | Inr ids \<Rightarrow> Inr (pipelineStart ids))) \<and>
   (\<forall>lastName ids.
      getLastJobRunWithDataFn opts (jobName opts) = Inr (Some lastName) \<and>
      ListJobRunNamesOlderThanFourHours opts (jobName opts) (NextJobRunID opts lastName) = Inr ids \<and>
      num lastName < num (NextJobRunID opts lastName) \<and>
      (\<forall>r\<in>set ids. num (NextJobRunID opts lastName) \<le> num r) \<and>
      run opts sched (pipelineStart ids) = Some s \<longrightarrow>
      jobLoaderStart opts = Inr (pipelineStart ids) \<and>
      (\<forall>sl\<in>set (slots s). (num lastName :: nat) < num (jobRunID sl)) \<and>
      (\<forall>r\<in>set (sink s). num lastName < num r))"
proof -
  have e: "(\<forall>sl\<in>set (slots s). (num lastName :: nat) < num (jobRunID sl)) \<and>
      (\<forall>r\<in>set (sink s). num lastName < num r)"
    if lt: "num lastName < num (NextJobRunID opts lastName)"
      and ge: "\<forall>r\<in>set ids. num (NextJobRunID opts lastName) \<le> num r"
      and run: "run opts sched (pipelineStart ids) = Some s" for lastName ids
  proof -
    have "idsKept ids s" using inv_reachable[OF run] by (simp add: inv_def)
    then have 1: "set (map jobRunID (slots s)) \<subseteq> set ids" by (auto simp: idsKept_def)
    have "sinkKept s" using sinkKept_run[OF run] by (simp add: sinkKept_def pipelineStart_def)
    then have 2: "set (sink s) \<subseteq> set ids" using 1 by (auto simp: sinkKept_def)
    have "\<forall>r\<in>set ids. num lastName < num r" using lt ge by fastforce
    then show ?thesis using 1 2 by auto
  qed
  show ?thesis
    using e by (auto simp: startingJobRunID_def jobLoaderStart_def split: sum.splits option.splits)
qed

section \<open>Properties of the pool of workers\<close>

lemma failures_Nil [simp]: "failures opts [] = []"
  by (simp add: failures_def map_filter_simps)

lemma failures_Cons:
  "failures opts (job # jobs) =
     (if shouldCollectedDataForJobFn opts job
      then (case jobLoaderRun opts (newJobBigQueryLoaderOptions opts job) of None \<Rightarrow> [] | Some err \<Rightarrow> [err]) else []) @ failures opts jobs"
  by (simp add: failures_def map_filter_simps split: option.splits)

lemma failures_append [simp]: "failures opts (xs @ ys) = failures opts xs @ failures opts ys"
  by (simp add: failures_def map_filter_def)

lemma concat_upd:
  "w < length ws \<Longrightarrow>
   mset (concat (map f (ws[w := p]))) + mset (f (ws ! w)) = mset (concat (map f ws)) + mset (f p)"
proof (induction ws arbitrary: w)
  case Nil
  then show ?case by simp
next
  case (Cons a ws)
  then show ?case by (cases w) (auto simp: ac_simps)
qed

lemma failures_concat: "failures opts (concat xss) = concat (map (failures opts) xss)"
  by (induction xss) simp_all

lemma failures_inFlight:
  "failures opts (inFlight s) = concat (map (\<lambda>p. failures opts (running p)) (workers s))"
  by (simp add: inFlight_def failures_concat comp_def)

lemma inFlight_length_upd:
  assumes "w < length ws"
  shows "length (concat (map running (ws[w := p]))) + length (running (ws ! w)) =
         length (concat (map running ws)) + length (running p)"
proof -
  have "size (mset (concat (map running (ws[w := p]))) + mset (running (ws ! w))) =
        size (mset (concat (map running ws)) + mset (running p))"
    using concat_upd[OF assms, of running p] by simp
  then show ?thesis by simp
qed

lemma poolStep_Pull:
  "poolStep opts (Pull w) s = Some s' \<longleftrightarrow>
     w < length (workers s) \<and> workers s ! w = Pulling \<and>
     (jobChan s = [] \<and> s' = s\<lparr>workers := (workers s)[w := WorkerDone]\<rparr> \<or>
      (\<exists>job rest. jobChan s = job # rest \<and> \<not> shouldCollectedDataForJobFn opts job \<and>
         s' = s\<lparr>jobChan := rest\<rparr>) \<or>
      (\<exists>job rest. jobChan s = job # rest \<and> shouldCollectedDataForJobFn opts job \<and>
         s' = s\<lparr>jobChan := rest, workers := (workers s)[w := Running job]\<rparr>))"
  by (auto simp: poolStep_def split: list.splits)

lemma poolStep_Finish:
  "poolStep opts (Finish w) s = Some s' \<longleftrightarrow>
     w < length (workers s) \<and>
     (\<exists>job. workers s ! w = Running job \<and>
        (jobLoaderRun opts (newJobBigQueryLoaderOptions opts job) = None \<and> s' = s\<lparr>workers := (workers s)[w := Pulling]\<rparr> \<or>
         (\<exists>err. jobLoaderRun opts (newJobBigQueryLoaderOptions opts job) = Some err \<and> length (errChan s) < jobCount s \<and>
            s' = s\<lparr>errChan := errChan s @ [err], workers := (workers s)[w := Pulling]\<rparr>)))"
  by (auto simp: poolStep_def split: workerpc.splits option.splits)

lemma poolStep_Collect:
  "poolStep opts Collect s = Some s' \<longleftrightarrow>
     returned s = None \<and> list_all (\<lambda>p. p = WorkerDone) (workers s) \<and>
     s' = s\<lparr>returned := Some (NewAggregate (errChan s))\<rparr>"
  by (auto simp: poolStep_def)

lemmas poolStep_iffs = poolStep_Pull poolStep_Finish poolStep_Collect

lemma poolInv_start: "poolInv opts jobs (poolStart jobs)"
  by (simp add: poolInv_def poolStart_def inFlight_def)

lemma inFlight_upd:
  assumes "w < length (workers s)"
  shows "mset (failures opts (inFlight (s\<lparr>workers := (workers s)[w := p]\<rparr>))) +
           mset (failures opts (running (workers s ! w))) =
         mset (failures opts (inFlight s)) + mset (failures opts (running p))"
    and "length (inFlight (s\<lparr>workers := (workers s)[w := p]\<rparr>)) + length (running (workers s ! w)) =
         length (inFlight s) + length (running p)"
  using concat_upd[OF assms, of "\<lambda>p. failures opts (running p)" p] inFlight_length_upd[OF assms, of p]
  by (simp_all add: failures_inFlight) (simp_all add: inFlight_def)

lemma inFlight_other [simp]:
  "inFlight (s\<lparr>jobChan := x\<rparr>) = inFlight s" "inFlight (s\<lparr>errChan := y\<rparr>) = inFlight s"
  "inFlight (s\<lparr>returned := z\<rparr>) = inFlight s"
  by (simp_all add: inFlight_def)

lemma poolInv_Pull:
  assumes "poolStep opts (Pull w) s = Some s'" "poolInv opts jobs s"
  shows "poolInv opts jobs s'"
proof -
  from assms(1) have w: "w < length (workers s)" "workers s ! w = Pulling"
    by (auto simp: poolStep_Pull)
  have r: "returned s = None"
    using assms(2) w by (auto simp: poolInv_def list_all_length)
  have w20: "w < 20"
    using assms(2) w by (simp add: poolInv_def)
  from assms(1) consider
      (drained) "jobChan s = []" "s' = s\<lparr>workers := (workers s)[w := WorkerDone]\<rparr>"
    | (skipped) job rest where "jobChan s = job # rest" "\<not> shouldCollectedDataForJobFn opts job"
        "s' = s\<lparr>jobChan := rest\<rparr>"
    | (taken) job rest where "jobChan s = job # rest" "shouldCollectedDataForJobFn opts job"
        "s' = s\<lparr>jobChan := rest, workers := (workers s)[w := Running job]\<rparr>"
    by (auto simp: poolStep_Pull)
  then show ?thesis
  proof cases
    case drained
    then show ?thesis
      using assms(2) r inFlight_upd(1)[OF w(1), of opts WorkerDone] inFlight_upd(2)[OF w(1), of WorkerDone]
      by (auto simp: poolInv_def w w20 nth_list_update)
  next
    case skipped
    then show ?thesis
      using assms(2) r by (auto simp: poolInv_def failures_Cons)
  next
    case taken
    have "s' = (s\<lparr>workers := (workers s)[w := Running job]\<rparr>)\<lparr>jobChan := rest\<rparr>"
      using taken by simp
    then show ?thesis
      using taken(1,2) assms(2) r inFlight_upd(1)[OF w(1), of opts "Running job"] inFlight_upd(2)[OF w(1), of "Running job"]
      by (auto simp: poolInv_def w w20 nth_list_update failures_Cons split: option.splits)
  qed
qed

lemma poolInv_Finish:
  assumes "poolStep opts (Finish w) s = Some s'" "poolInv opts jobs s"
  shows "poolInv opts jobs s'"
proof -
  from assms(1) obtain job where w: "w < length (workers s)" "workers s ! w = Running job"
    by (auto simp: poolStep_Finish)
  have r: "returned s = None"
    using assms(2) w by (auto simp: poolInv_def list_all_length)
  have w20: "w < 20"
    using assms(2) w by (simp add: poolInv_def)
  have c: "shouldCollectedDataForJobFn opts job"
    using assms(2) w by (auto simp: poolInv_def)
  from assms(1) w consider
      (ok) "jobLoaderRun opts (newJobBigQueryLoaderOptions opts job) = None" "s' = s\<lparr>workers := (workers s)[w := Pulling]\<rparr>"
    | (failed) err where "jobLoaderRun opts (newJobBigQueryLoaderOptions opts job) = Some err"
        "s' = s\<lparr>errChan := errChan s @ [err], workers := (workers s)[w := Pulling]\<rparr>"
    by (auto simp: poolStep_Finish)
  then show ?thesis
  proof cases
    case ok
    then show ?thesis
      using assms(2) r c inFlight_upd(1)[OF w(1), of opts Pulling] inFlight_upd(2)[OF w(1), of Pulling]
      by (auto simp: poolInv_def w w20 nth_list_update failures_Cons)
  next
    case failed
    have "s' = (s\<lparr>workers := (workers s)[w := Pulling]\<rparr>)\<lparr>errChan := errChan s @ [err]\<rparr>"
      using failed by simp
    then show ?thesis
      using failed(1) assms(2) r c inFlight_upd(1)[OF w(1), of opts Pulling, symmetric]
        inFlight_upd(2)[OF w(1), of Pulling]
      by (auto simp: poolInv_def w w20 nth_list_update failures_Cons)
  qed
qed

lemma poolInv_Collect:
  assumes "poolStep opts Collect s = Some s'" "poolInv opts jobs s"
  shows "poolInv opts jobs s'"
proof -
  have a: "list_all (\<lambda>p. p = WorkerDone) (workers s)" "s' = s\<lparr>returned := Some (NewAggregate (errChan s))\<rparr>"
    using assms(1) by (auto simp: poolStep_Collect)
  have "workers s ! 0 = WorkerDone" "0 < length (workers s)"
    using a(1) assms(2) by (auto simp: poolInv_def list_all_length)
  then have "jobChan s = []"
    using assms(2) by (auto simp: poolInv_def)
  then show ?thesis
    using a assms(2) by (auto simp: poolInv_def)
qed

lemma poolInv_step: "poolStep opts a s = Some s' \<Longrightarrow> poolInv opts jobs s \<Longrightarrow> poolInv opts jobs s'"
  by (cases a) (auto intro: poolInv_Pull poolInv_Finish poolInv_Collect)

lemma poolInv_run: "poolRun opts sched s = Some s' \<Longrightarrow> poolInv opts jobs s \<Longrightarrow> poolInv opts jobs s'"
proof (induction sched arbitrary: s)
  case Nil
  then show ?case by simp
next
  case (Cons a sched)
  then show ?case by (auto split: option.splits dest: poolInv_step)
qed

lemma poolMeasure_step:
  assumes "poolStep opts a s = Some s'"
  shows "poolMeasure s' < poolMeasure s"
proof (cases a)
  case (Pull w)
  then have w: "w < length (workers s)" "workers s ! w = Pulling"
    using assms by (auto simp: poolStep_Pull)
  show ?thesis
    using assms Pull sum_list_upd[OF w(1), of workerRank WorkerDone]
      sum_list_upd[OF w(1), of workerRank "Running job" for job]
    by (auto simp: poolStep_Pull poolMeasure_def w)
next
  case (Finish w)
  then obtain job where w: "w < length (workers s)" "workers s ! w = Running job"
    using assms by (auto simp: poolStep_Finish)
  show ?thesis
    using assms Finish sum_list_upd[OF w(1), of workerRank Pulling]
    by (auto simp: poolStep_Finish poolMeasure_def w)
next
  case Collect
  then show ?thesis using assms by (auto simp: poolStep_Collect poolMeasure_def)
qed

lemma poolMeasure_run:
  "poolRun opts sched s = Some s' \<Longrightarrow> length sched + poolMeasure s' \<le> poolMeasure s"
proof (induction sched arbitrary: s)
  case Nil
  then show ?case by simp
next
  case (Cons a sched)
  then obtain s1 where 1: "poolStep opts a s = Some s1" "poolRun opts sched s1 = Some s'"
    by (auto split: option.splits)
  show ?case using Cons.IH[OF 1(2)] poolMeasure_step[OF 1(1)] by simp
qed

lemma poolMeasure_start: "poolMeasure (poolStart jobs) = 2 * length jobs + 21"
  by (simp add: poolMeasure_def poolStart_def sum_list_replicate)

lemma running_le: "length (concat (map running ws)) \<le> length ws"
proof (induction ws)
  case Nil
  then show ?case by simp
next
  case (Cons a ws)
  then show ?case by (cases a) auto
qed

lemma running_pos: "w < length ws \<Longrightarrow> ws ! w = Running job \<Longrightarrow> 0 < length (concat (map running ws))"
proof (induction ws arbitrary: w)
  case Nil
  then show ?case by simp
next
  case (Cons a ws)
  then show ?case by (cases w) auto
qed

lemma pool_progress:
  assumes "poolInv opts jobs s" "returned s = None"
  shows "\<exists>a. poolStep opts a s \<noteq> None"
proof (cases "list_all (\<lambda>p. p = WorkerDone) (workers s)")
  case True
  then have "poolStep opts Collect s \<noteq> None" using assms(2) by (simp add: poolStep_def)
  then show ?thesis by blast
next
  case False
  then obtain w where w: "w < length (workers s)" "workers s ! w \<noteq> WorkerDone"
    by (auto simp: list_all_length)
  show ?thesis
  proof (cases "workers s ! w")
    case Pulling
    then have "poolStep opts (Pull w) s \<noteq> None"
      using w by (simp add: poolStep_def split: list.splits)
    then show ?thesis by blast
  next
    case (Running job)
    have "0 < length (inFlight s)"
      using running_pos[OF w(1) Running] by (simp add: inFlight_def)
    then have "length (errChan s) < jobCount s"
      using assms(1) by (cases "inFlight s") (auto simp: poolInv_def)
    then have "poolStep opts (Finish w) s \<noteq> None"
      using w Running by (simp add: poolStep_def split: option.splits)
    then show ?thesis by blast
  next
    case WorkerDone
    then show ?thesis using w by simp
  qed
qed

lemma finish_continues:
  assumes "poolInv opts jobs s" "w < length (workers s)" "workers s ! w = Running job"
  shows "poolStep opts (Finish w) s =
     Some (s\<lparr>errChan := errChan s @ (case jobLoaderRun opts (newJobBigQueryLoaderOptions opts job) of None \<Rightarrow> [] | Some err \<Rightarrow> [err]),
             workers := (workers s)[w := Pulling]\<rparr>)"
proof -
  have "0 < length (inFlight s)"
    using running_pos[OF assms(2,3)] by (simp add: inFlight_def)
  then have "length (errChan s) < jobCount s"
    using assms(1) by (cases "inFlight s") (auto simp: poolInv_def)
  then show ?thesis
    using assms(2,3) by (simp add: poolStep_def split: option.splits)
qed

text \<open>
  C7.  In every state the pool reaches: when \<open>Run\<close> has returned, the queue is
  drained, every worker has ended, and the result is the aggregate of the errors sent,
  which are, as a multiset, the errors of the jobs that are collected and fail, so it
  is \<open>nil\<close> exactly when there is none; before that, some step can be taken, and the
  steps taken and left are at most two for each job and 21 more; and a worker whose
  loader returns sends its error, if any, and goes back to the queue.
\<close>

theorem pool_aggregates_every_failure:
  "poolRun opts sched (poolStart jobs) = Some s \<Longrightarrow>
   (\<forall>r. returned s = Some r \<longrightarrow>
      jobChan s = [] \<and> list_all (\<lambda>p. p = WorkerDone) (workers s) \<and>
      r = NewAggregate (errChan s) \<and> mset (errChan s) = mset (failures opts jobs) \<and>
      (r = None \<longleftrightarrow> failures opts jobs = [])) \<and>
   (returned s = None \<longrightarrow> (\<exists>a. poolStep opts a s \<noteq> None)) \<and>
   length sched + poolMeasure s \<le> 2 * length jobs + 21 \<and>
   (\<forall>w job. w < length (workers s) \<and> workers s ! w = Running job \<longrightarrow>
      poolStep opts (Finish w) s =
        Some (s\<lparr>errChan := errChan s @ (case jobLoaderRun opts (newJobBigQueryLoaderOptions opts job) of None \<Rightarrow> [] | Some err \<Rightarrow> [err]),
                workers := (workers s)[w := Pulling]\<rparr>))"
proof -
  assume run: "poolRun opts sched (poolStart jobs) = Some s"
  then have inv: "poolInv opts jobs s" using poolInv_run poolInv_start by blast
  have a: "\<forall>r. returned s = Some r \<longrightarrow>
      jobChan s = [] \<and> list_all (\<lambda>p. p = WorkerDone) (workers s) \<and>
      r = NewAggregate (errChan s) \<and> mset (errChan s) = mset (failures opts jobs) \<and>
      (r = None \<longleftrightarrow> failures opts jobs = [])"
  proof (intro allI impI)
    fix r assume r: "returned s = Some r"
    then have d: "jobChan s = []" "list_all (\<lambda>p. p = WorkerDone) (workers s)" "r = NewAggregate (errChan s)"
      using inv by (auto simp: poolInv_def)
    have "inFlight s = []"
      using d(2) by (auto simp: inFlight_def list_all_iff)
    then have m: "mset (errChan s) = mset (failures opts jobs)"
      using inv d(1) by (simp add: poolInv_def)
    have "errChan s = [] \<longleftrightarrow> failures opts jobs = []"
      using m by (metis mset_zero_iff)
    then show "jobChan s = [] \<and> list_all (\<lambda>p. p = WorkerDone) (workers s) \<and>
      r = NewAggregate (errChan s) \<and> mset (errChan s) = mset (failures opts jobs) \<and>
      (r = None \<longleftrightarrow> failures opts jobs = [])"
      using d m by (simp add: NewAggregate_def)
  qed
  show ?thesis
    using a pool_progress[OF inv] poolMeasure_run[OF run] finish_continues[OF inv]
    by (simp add: poolMeasure_start)
qed

lemma filter_mono_length: "(\<And>x. P x \<Longrightarrow> Q x) \<Longrightarrow> length (filter P xs) \<le> length (filter Q xs)"
  by (induction xs) auto

text \<open>
  C8.  In every state a pipeline reaches, the slots that are reading are no more than
  the number of concurrent readers (none if that is not positive); the loader made for
  a job has 20 readers; and in every state the pool reaches there are 20 workers, so
  at most 20 loaders run.
\<close>

theorem fetches_bounded_by_tokens:
  "(run opts sched (pipelineStart ids) = Some s \<longrightarrow>
      int (length (filter (\<lambda>sl. stage sl = Reading) (slots s))) \<le> max 0 (numberOfConcurrentReaders opts)) \<and>
   numberOfConcurrentReaders (newJobBigQueryLoaderOptions aopts job) = 20 \<and>
   (poolRun aopts psched (poolStart jobs) = Some ps \<longrightarrow>
      length (workers ps) = 20 \<and> length (inFlight ps) \<le> 20)"
proof -
  have a: "int (length (filter (\<lambda>sl. stage sl = Reading) (slots s))) \<le> max 0 (numberOfConcurrentReaders opts)"
    if run: "run opts sched (pipelineStart ids) = Some s"
  proof -
    have "length (filter (\<lambda>sl. stage sl = Reading) (slots s)) \<le> length (filter (\<lambda>sl. holding (stage sl)) (slots s))"
      by (rule filter_mono_length) simp
    then show ?thesis using inv_reachable[OF run] by (simp add: inv_def tokensHeld_def)
  qed
  have b: "length (workers ps) = 20 \<and> length (inFlight ps) \<le> 20"
    if run: "poolRun aopts psched (poolStart jobs) = Some ps"
  proof -
    have "poolInv aopts jobs ps" using poolInv_run[OF run poolInv_start] .
    then have "length (workers ps) = 20" by (simp add: poolInv_def)
    then show ?thesis using running_le[of "workers ps"] by (simp add: inFlight_def)
  qed
  show ?thesis using a b by (simp add: newJobBigQueryLoaderOptions_def)
qed

section \<open>The pipeline and the pool on the examples\<close>

lemmas run_defs = pipelineStart_def mainStep_def slotStep_def setpc_def exampleOpts_def
  exampleJobRun_def readJobRunFromGCS_def NewAggregate_def

lemma run_append:
  "run opts (xs @ ys) s = (case run opts xs s of None \<Rightarrow> None | Some s' \<Rightarrow> run opts ys s')"
  by (induction xs arbitrary: s) (auto split: option.splits simp del: step.simps)




text \<open>
  The condition on the reads is needed: a slot whose run is skipped returns before its
  \<open>select\<close>, so it closes its gate without waiting for its predecessor, and its
  successor can insert its row before the predecessor does.
\<close>

lemma skipped_slot_lets_successor_overtake:
  "map_option sink
     (run (exampleOpts 3)
        [Recv, Acquire, Recv, Acquire, Recv, Acquire, Read 1, Close 1, Read 2, SelectReady 2,
         PutRow 2, Read 0, SelectReady 0, PutRow 0]
        (pipelineStart [''6'', ''7'', ''8''])) = Some [''8'', ''6'']"
  by (simp add: run_defs)

lemma ex_skipFirst:
  "map_option (\<lambda>s. (map stage (slots s), closes s 1, closes s 2, length (slots s), stepsLeft s))
     (run (exampleOpts 2) skipFirst (pipelineStart [''7'', ''8''])) =
   Some ([Returning None, Selecting (exampleJobRun ''8'')], 0, 0, 2, 13)"
  by (simp add: run_defs skipFirst_def stepsLeft_def)

theorem gate_closed_exactly_once_witness:
  "map_option (\<lambda>s. (map stage (slots s), closes s 1, closes s 2))
     (run (exampleOpts 2) skipFirst (pipelineStart [''7'', ''8''])) =
     Some ([Returning None, Selecting (exampleJobRun ''8'')], 0, 0) \<and>
   run (exampleOpts 2) (skipFirst @ [SelectReady 1]) (pipelineStart [''7'', ''8'']) = None \<and>
   map_option (\<lambda>s. (map stage (slots s), closes s 1, closes s 2))
     (run (exampleOpts 2) (skipFirst @ [Close 0, SelectReady 1]) (pipelineStart [''7'', ''8''])) =
     Some ([Closed None, Uploading (exampleJobRun ''8'')], 1, 0) \<and>
   run (exampleOpts 2) (skipFirst @ [Close 0, Close 0]) (pipelineStart [''7'', ''8'']) = None \<and>
   length skipFirst + 13 \<le> 12 * length [''7'', ''8''] + (2 :: nat)"
proof -
  obtain s where s: "run (exampleOpts 2) skipFirst (pipelineStart [''7'', ''8'']) = Some s"
    "map stage (slots s) = [Returning None, Selecting (exampleJobRun ''8'')]" "length (slots s) = 2"
    "stepsLeft s = 13" "closes s 1 = 0" "closes s 2 = 0"
    using ex_skipFirst by auto
  have "length (filter (\<lambda>a. a \<noteq> Cancel) skipFirst) + stepsLeft s \<le> 12 * length [''7'', ''8''] + 2"
    using gate_closed_exactly_once[OF s(1)] by blast
  then have b: "length skipFirst + 13 \<le> 12 * length [''7'', ''8''] + (2 :: nat)"
    using s(4) by (simp add: skipFirst_def)
  have rest:
    "run (exampleOpts 2) (skipFirst @ [SelectReady 1]) (pipelineStart [''7'', ''8'']) = None"
    "map_option (\<lambda>s. (map stage (slots s), closes s 1, closes s 2))
     (run (exampleOpts 2) (skipFirst @ [Close 0, SelectReady 1]) (pipelineStart [''7'', ''8''])) =
     Some ([Closed None, Uploading (exampleJobRun ''8'')], 1, 0)"
    "run (exampleOpts 2) (skipFirst @ [Close 0, Close 0]) (pipelineStart [''7'', ''8'']) = None"
    by (simp_all add: run_defs skipFirst_def)
  show ?thesis using s b rest by simp
qed

lemma ex_commitFirst:
  "map_option (\<lambda>s. (tokens s, map stage (slots s), sink s))
     (run (exampleOpts 1) commitFirst (pipelineStart [''6'', ''8''])) =
   Some (1, [Content (exampleJobRun ''6''), NotStarted], [''6''])"
  by (simp add: run_defs commitFirst_def)

theorem token_held_until_release_witness:
  "map_option (\<lambda>s. (tokens s, map stage (slots s)))
     (run (exampleOpts 1) commitFirst (pipelineStart [''6'', ''8''])) =
     Some (1, [Content (exampleJobRun ''6''), NotStarted]) \<and>
   map_option (\<lambda>s. (tokens s, map stage (slots s)))
     (run (exampleOpts 1) (commitFirst @ [UploadContent 0, Close 0, Report 0, Release 0])
        (pipelineStart [''6'', ''8''])) =
     Some (0, [Released, NotStarted])"
proof -
  obtain s where s: "run (exampleOpts 1) commitFirst (pipelineStart [''6'', ''8'']) = Some s"
    "map stage (slots s) = [Content (exampleJobRun ''6''), NotStarted]"
    using ex_commitFirst by auto
  have f: "map (\<lambda>sl. stage sl \<noteq> NotStarted \<and> stage sl \<noteq> Released) (slots s) = [True, False]"
    using arg_cong[OF s(2), of "map (\<lambda>p. p \<noteq> NotStarted \<and> p \<noteq> Released)"] by (simp add: comp_def)
  have "length (filter (\<lambda>sl. stage sl \<noteq> NotStarted \<and> stage sl \<noteq> Released) (slots s)) = 1"
    using f by (cases "slots s"; cases "tl (slots s)") (auto split: if_splits)
  then have "tokens s = 1"
    using token_held_until_release[OF s(1)] by simp
  moreover have "map_option (\<lambda>s. (tokens s, map stage (slots s)))
     (run (exampleOpts 1) (commitFirst @ [UploadContent 0, Close 0, Report 0, Release 0])
        (pipelineStart [''6'', ''8''])) =
     Some (0, [Released, NotStarted])"
    by (simp add: run_defs commitFirst_def)
  ultimately show ?thesis using s by simp
qed

text \<open>
  With one reader: the token is still taken while the first slot waits at its \<open>select\<close>
  and after its row is inserted, and the second slot cannot start meanwhile.
\<close>

theorem token_held_across_commit:
  "map_option tokens
     (run (exampleOpts 1) [Recv, Acquire, Read 0] (pipelineStart [''6'', ''8''])) = Some 1 \<and>
   map_option (map stage \<circ> slots)
     (run (exampleOpts 1) [Recv, Acquire, Read 0] (pipelineStart [''6'', ''8''])) =
     Some [Selecting (exampleJobRun ''6'')] \<and>
   map_option tokens
     (run (exampleOpts 1) [Recv, Acquire, Read 0, SelectReady 0, PutRow 0, Recv]
        (pipelineStart [''6'', ''8''])) = Some 1 \<and>
   map_option (map stage \<circ> slots)
     (run (exampleOpts 1) [Recv, Acquire, Read 0, SelectReady 0, PutRow 0, Recv]
        (pipelineStart [''6'', ''8''])) =
     Some [Content (exampleJobRun ''6''), NotStarted] \<and>
   map_option sink
     (run (exampleOpts 1) [Recv, Acquire, Read 0, SelectReady 0, PutRow 0, Recv]
        (pipelineStart [''6'', ''8''])) = Some [''6''] \<and>
   run (exampleOpts 1) [Recv, Acquire, Read 0, SelectReady 0, PutRow 0, Recv, Acquire]
     (pipelineStart [''6'', ''8'']) = None"
  by (simp add: run_defs)

lemma ex_cancelSecond:
  "map_option (\<lambda>s. (map stage (slots s), ctxDone s, length (slots s)))
     (run (exampleOpts 2) cancelSecond (pipelineStart [''6'', ''8''])) =
   Some ([Reading, Selecting (exampleJobRun ''8'')], True, 2)"
  by (simp add: run_defs cancelSecond_def)

theorem cancelled_slot_returns_nil_witness:
  "map_option (\<lambda>s. (map stage (slots s), ctxDone s))
     (run (exampleOpts 2) cancelSecond (pipelineStart [''6'', ''8''])) =
     Some ([Reading, Selecting (exampleJobRun ''8'')], True) \<and>
   map_option (\<lambda>s. (map stage (slots s), sink s, insertionErrors s, closes s 2))
     (run (exampleOpts 2) (cancelSecond @ [SelectDone 1, Close 1, Report 1])
        (pipelineStart [''6'', ''8''])) =
     Some ([Reading, Reported], [], [], 1)"
proof -
  obtain s where s: "run (exampleOpts 2) cancelSecond (pipelineStart [''6'', ''8'']) = Some s"
    "map stage (slots s) = [Reading, Selecting (exampleJobRun ''8'')]" "ctxDone s" "length (slots s) = 2"
    using ex_cancelSecond by auto
  have p: "stage (slots s ! 1) = Selecting (exampleJobRun ''8'')"
    using arg_cong[OF s(2), of "\<lambda>xs. xs ! 1"] s(4) by simp
  have "run (exampleOpts 2) [SelectDone 1, Close 1, Report 1] s =
        Some (setpc 1 Reported
               (s\<lparr>closes := (closes s)
                     (doneUploading (slots s ! 1) := closes s (doneUploading (slots s ! 1)) + 1)\<rparr>))"
    using cancelled_slot_returns_nil[of 1 s "exampleJobRun ''8''" "exampleOpts 2"] p s(3,4)
    by (simp del: run.simps step.simps)
  then have "map_option (\<lambda>s. (sink s, insertionErrors s))
     (run (exampleOpts 2) (cancelSecond @ [SelectDone 1, Close 1, Report 1]) (pipelineStart [''6'', ''8''])) =
     map_option (\<lambda>s. (sink s, insertionErrors s)) (run (exampleOpts 2) cancelSecond (pipelineStart [''6'', ''8'']))"
    using s(1) by (simp add: run_append del: run.simps)
  moreover have "map_option (\<lambda>s. (map stage (slots s), sink s, insertionErrors s, closes s 2))
     (run (exampleOpts 2) (cancelSecond @ [SelectDone 1, Close 1, Report 1])
        (pipelineStart [''6'', ''8''])) =
     Some ([Reading, Reported], [], [], 1)"
    by (simp add: run_defs cancelSecond_def)
  ultimately show ?thesis using s by simp
qed

text \<open>
  The second slot is cancelled at its \<open>select\<close>: its \<open>Run\<close> returns \<open>nil\<close>, and when
  every goroutine has ended no error has been reported and \<open>jobLoaderOptions.Run\<close>
  returns \<open>nil\<close>.
\<close>

theorem cancelled_slot_reports_no_error:
  "map_option (map stage \<circ> slots)
     (run (exampleOpts 2) [Recv, Acquire, Recv, Acquire, Read 1, Cancel, SelectDone 1, Close 1]
        (pipelineStart [''6'', ''8''])) =
     Some [Reading, Closed None] \<and>
   map_option insertionErrors
     (run (exampleOpts 2)
        [Recv, Acquire, Recv, Acquire, Read 1, Cancel, SelectDone 1, Close 1, Report 1, Release 1,
         Read 0, SelectDone 0, Close 0, Report 0, Release 0, Recv, WaitAll]
        (pipelineStart [''6'', ''8''])) = Some [] \<and>
   map_option sink
     (run (exampleOpts 2)
        [Recv, Acquire, Recv, Acquire, Read 1, Cancel, SelectDone 1, Close 1, Report 1, Release 1,
         Read 0, SelectDone 0, Close 0, Report 0, Release 0, Recv, WaitAll]
        (pipelineStart [''6'', ''8''])) = Some [] \<and>
   map_option main
     (run (exampleOpts 2)
        [Recv, Acquire, Recv, Acquire, Read 1, Cancel, SelectDone 1, Close 1, Report 1, Release 1,
         Read 0, SelectDone 0, Close 0, Report 0, Release 0, Recv, WaitAll]
        (pipelineStart [''6'', ''8''])) = Some (Returned None)"
  by (simp add: run_defs)

lemma ex_secondUnfinished:
  "map_option (\<lambda>s. (map stage (slots s), map jobRunID (slots s), length (slots s), sink s, insertionErrors s))
     (run (exampleOpts 3) secondUnfinished (pipelineStart [''6'', ''7'', ''8''])) =
   Some ([Closed None, Reading, Selecting (exampleJobRun ''8'')], [''6'', ''7'', ''8''], 3, [''6''], [])"
  by (simp add: run_defs secondUnfinished_def)

theorem skipped_runs_write_nothing_witness:
  "readJobRunFromGCS (exampleOpts 3) ''7'' = Inr None \<and>
   readJobRunFromGCS (exampleOpts 3) ''9'' = Inr None \<and>
   map_option (\<lambda>s. (map stage (slots s), sink s, insertionErrors s))
     (run (exampleOpts 3) secondUnfinished (pipelineStart [''6'', ''7'', ''8''])) =
     Some ([Closed None, Reading, Selecting (exampleJobRun ''8'')], [''6''], []) \<and>
   map_option (\<lambda>s. (map stage (slots s), sink s, insertionErrors s))
     (run (exampleOpts 3) (secondUnfinished @ [Read 1, Close 1, Report 1, Release 1])
        (pipelineStart [''6'', ''7'', ''8''])) =
     Some ([Closed None, Released, Selecting (exampleJobRun ''8'')], [''6''], []) \<and>
   map_option (\<lambda>s. (map stage (slots s), sink s, insertionErrors s))
     (run (exampleOpts 3)
        (secondUnfinished @ [Read 1, Close 1, Report 1, Release 1, SelectReady 2, PutRow 2])
        (pipelineStart [''6'', ''7'', ''8''])) =
     Some ([Closed None, Released, Content (exampleJobRun ''8'')], [''6'', ''8''], [])"
proof -
  obtain s where s: "run (exampleOpts 3) secondUnfinished (pipelineStart [''6'', ''7'', ''8'']) = Some s"
    "map stage (slots s) = [Closed None, Reading, Selecting (exampleJobRun ''8'')]"
    "map jobRunID (slots s) = [''6'', ''7'', ''8'']" "length (slots s) = 3"
    "sink s = [''6'']" "insertionErrors s = []"
    using ex_secondUnfinished by auto
  have c: "readJobRunFromGCS (exampleOpts 3) ''7'' = Inr None"
    "readJobRunFromGCS (exampleOpts 3) ''9'' = Inr None"
    by (simp_all add: readJobRunFromGCS_def exampleOpts_def)
  have p: "stage (slots s ! 1) = Reading" "jobRunID (slots s ! 1) = ''7''"
    using arg_cong[OF s(2), of "\<lambda>xs. xs ! 1"] arg_cong[OF s(3), of "\<lambda>xs. xs ! 1"] s(4) by simp_all
  have "run (exampleOpts 3) [Read 1, Close 1, Report 1, Release 1] s =
        Some (setpc 1 Released
               (s\<lparr>closes := (closes s)(doneUploading (slots s ! 1) := 1),
                  tokens := tokens s - 1\<rparr>))"
    using skipped_runs_write_nothing[OF s(1)] p c(1) s(4) by (simp del: run.simps step.simps)
  then have "map_option (\<lambda>s. (sink s, insertionErrors s))
     (run (exampleOpts 3) (secondUnfinished @ [Read 1, Close 1, Report 1, Release 1])
        (pipelineStart [''6'', ''7'', ''8''])) = Some ([''6''], [])"
    using s(1,5,6) by (simp add: run_append del: run.simps)
  moreover have
    "map_option (\<lambda>s. (map stage (slots s), sink s, insertionErrors s))
     (run (exampleOpts 3) (secondUnfinished @ [Read 1, Close 1, Report 1, Release 1])
        (pipelineStart [''6'', ''7'', ''8''])) =
     Some ([Closed None, Released, Selecting (exampleJobRun ''8'')], [''6''], [])"
    "map_option (\<lambda>s. (map stage (slots s), sink s, insertionErrors s))
     (run (exampleOpts 3)
        (secondUnfinished @ [Read 1, Close 1, Report 1, Release 1, SelectReady 2, PutRow 2])
        (pipelineStart [''6'', ''7'', ''8''])) =
     Some ([Closed None, Released, Content (exampleJobRun ''8'')], [''6'', ''8''], [])"
    by (simp_all add: run_defs secondUnfinished_def)
  ultimately show ?thesis using s c by simp
qed

lemma ex_rn: "runNumber ''5'' = 5" "runNumber ''6'' = 6" "runNumber ''7'' = 7" "runNumber ''8'' = 8"
  by (simp_all add: runNumber_def)

theorem resume_after_last_recorded_run_witness:
  "startingJobRunID (exampleOpts 3) = Inr ''6'' \<and>
   startingJobRunID ((exampleOpts 3)\<lparr>getLastJobRunWithDataFn := (\<lambda>_. Inr None)\<rparr>) = Inr ''0'' \<and>
   jobLoaderStart (exampleOpts 3) = Inr (pipelineStart [''6'', ''7'', ''8'']) \<and>
   runNumber ''5'' < runNumber ''6'' \<and>
   map_option sink
     (run (exampleOpts 3)
        (secondUnfinished @ [Read 1, Close 1, Report 1, Release 1, SelectReady 2, PutRow 2])
        (pipelineStart [''6'', ''7'', ''8''])) = Some [''6'', ''8''] \<and>
   list_all (\<lambda>r. runNumber ''5'' < runNumber r) [''6'', ''8'']"
proof -
  let ?sched = "secondUnfinished @ [Read 1, Close 1, Report 1, Release 1, SelectReady 2, PutRow 2]"
  have e: "map_option sink (run (exampleOpts 3) ?sched (pipelineStart [''6'', ''7'', ''8''])) =
      Some [''6'', ''8'']"
    by (simp add: run_defs secondUnfinished_def)
  then obtain s where s: "run (exampleOpts 3) ?sched (pipelineStart [''6'', ''7'', ''8'']) = Some s"
    "sink s = [''6'', ''8'']"
    by auto
  have g: "getLastJobRunWithDataFn (exampleOpts 3) (jobName (exampleOpts 3)) = Inr (Some ''5'')"
    "NextJobRunID (exampleOpts 3) ''5'' = ''6''"
    "ListJobRunNamesOlderThanFourHours (exampleOpts 3) (jobName (exampleOpts 3)) ''6'' =
       Inr [''6'', ''7'', ''8'']"
    by (simp_all add: exampleOpts_def)
  note t = resume_after_last_recorded_run[of "exampleOpts 3" runNumber ?sched s]
  have a: "startingJobRunID (exampleOpts 3) = Inr ''6''"
    using t g by simp
  have b: "jobLoaderStart (exampleOpts 3) = Inr (pipelineStart [''6'', ''7'', ''8'']) \<and>
     (\<forall>r\<in>set (sink s). runNumber ''5'' < runNumber r)"
    using t g s(1) ex_rn by (simp del: run.simps)
  have c: "startingJobRunID ((exampleOpts 3)\<lparr>getLastJobRunWithDataFn := (\<lambda>_. Inr None)\<rparr>) = Inr ''0''"
    using resume_after_last_recorded_run[of "(exampleOpts 3)\<lparr>getLastJobRunWithDataFn := (\<lambda>_. Inr None)\<rparr>"]
    by simp
  show ?thesis using a b c e s(2) ex_rn by simp
qed

lemmas pool_defs = poolStart_def poolStep_def exampleAllJobs_def exampleJobs_def
  newJobBigQueryLoaderOptions_def exampleOpts_def NewAggregate_def everyWorkerPulls_def
  twoWorkers_def

lemma ex_twoWorkers:
  "map_option (\<lambda>s. (returned s, errChan s, jobChan s))
     (poolRun exampleAllJobs twoWorkers (poolStart exampleJobs)) =
   Some (Some (Some (Aggregate [Failure ''e2e-gcp'', Failure ''e2e-aws''])),
         [Failure ''e2e-gcp'', Failure ''e2e-aws''], [])"
  by code_simp

lemma ex_failures: "failures exampleAllJobs exampleJobs = [Failure ''e2e-aws'', Failure ''e2e-gcp'']"
  by (simp add: failures_def map_filter_def exampleAllJobs_def exampleJobs_def
      newJobBigQueryLoaderOptions_def exampleOpts_def)

theorem pool_aggregates_every_failure_witness:
  "map_option returned (poolRun exampleAllJobs twoWorkers (poolStart exampleJobs)) =
     Some (Some (Some (Aggregate [Failure ''e2e-gcp'', Failure ''e2e-aws'']))) \<and>
   failures exampleAllJobs exampleJobs = [Failure ''e2e-aws'', Failure ''e2e-gcp''] \<and>
   map_option (\<lambda>s. (workers s ! 1, errChan s, jobChan s))
     (poolRun exampleAllJobs [Pull 0, Pull 1, Finish 1] (poolStart exampleJobs)) =
     Some (Pulling, [Failure ''e2e-gcp''], [\<lparr>JobName = ''unit''\<rparr>, \<lparr>JobName = ''e2e-azure''\<rparr>]) \<and>
   poolRun exampleAllJobs [Pull 0, Pull 1, Finish 1, Collect] (poolStart exampleJobs) = None \<and>
   length twoWorkers \<le> 2 * length exampleJobs + 21"
proof -
  obtain s where s: "poolRun exampleAllJobs twoWorkers (poolStart exampleJobs) = Some s"
    "returned s = Some (Some (Aggregate [Failure ''e2e-gcp'', Failure ''e2e-aws'']))"
    "errChan s = [Failure ''e2e-gcp'', Failure ''e2e-aws'']"
    using ex_twoWorkers by auto
  note t = pool_aggregates_every_failure[OF s(1)]
  have "mset (errChan s) = mset (failures exampleAllJobs exampleJobs)"
    using t s(2) by blast
  then have m: "mset (failures exampleAllJobs exampleJobs) = mset [Failure ''e2e-gcp'', Failure ''e2e-aws'']"
    using s(3) by simp
  have "length twoWorkers + poolMeasure s \<le> 2 * length exampleJobs + 21"
    using t by blast
  then have b: "length twoWorkers \<le> 2 * length exampleJobs + 21" by simp
  have rest:
    "map_option (\<lambda>s. (workers s ! 1, errChan s, jobChan s))
     (poolRun exampleAllJobs [Pull 0, Pull 1, Finish 1] (poolStart exampleJobs)) =
     Some (Pulling, [Failure ''e2e-gcp''], [\<lparr>JobName = ''unit''\<rparr>, \<lparr>JobName = ''e2e-azure''\<rparr>])"
    "poolRun exampleAllJobs [Pull 0, Pull 1, Finish 1, Collect] (poolStart exampleJobs) = None"
    by code_simp+
  show ?thesis using s b rest ex_failures by simp
qed

lemma ex_reading:
  "map_option (\<lambda>s. (map stage (slots s), tokens s))
     (run (exampleOpts 1) [Recv, Acquire, Recv] (pipelineStart [''6'', ''8''])) =
   Some ([Reading, NotStarted], 1)"
  by (simp add: run_defs)

lemma ex_running:
  "map_option (\<lambda>s. (inFlight s, length (workers s)))
     (poolRun exampleAllJobs [Pull 0, Pull 1] (poolStart exampleJobs)) =
   Some ([\<lparr>JobName = ''e2e-aws''\<rparr>, \<lparr>JobName = ''e2e-gcp''\<rparr>], 20)"
  by code_simp

theorem fetches_bounded_by_tokens_witness:
  "map_option (\<lambda>s. map stage (slots s))
     (run (exampleOpts 1) [Recv, Acquire, Recv] (pipelineStart [''6'', ''8''])) =
     Some [Reading, NotStarted] \<and>
   run (exampleOpts 1) [Recv, Acquire, Recv, Acquire] (pipelineStart [''6'', ''8'']) = None \<and>
   numberOfConcurrentReaders (newJobBigQueryLoaderOptions exampleAllJobs \<lparr>JobName = ''e2e-aws''\<rparr>) = 20 \<and>
   map_option (\<lambda>s. (inFlight s, length (workers s)))
     (poolRun exampleAllJobs [Pull 0, Pull 1] (poolStart exampleJobs)) =
     Some ([\<lparr>JobName = ''e2e-aws''\<rparr>, \<lparr>JobName = ''e2e-gcp''\<rparr>], 20)"
proof -
  obtain s where s: "run (exampleOpts 1) [Recv, Acquire, Recv] (pipelineStart [''6'', ''8'']) = Some s"
    "map stage (slots s) = [Reading, NotStarted]"
    using ex_reading by auto
  obtain ps where ps: "poolRun exampleAllJobs [Pull 0, Pull 1] (poolStart exampleJobs) = Some ps"
    "inFlight ps = [\<lparr>JobName = ''e2e-aws''\<rparr>, \<lparr>JobName = ''e2e-gcp''\<rparr>]"
    using ex_running by auto
  note t = fetches_bounded_by_tokens[of "exampleOpts 1" "[Recv, Acquire, Recv]" "[''6'', ''8'']" s
      exampleAllJobs "\<lparr>JobName = ''e2e-aws''\<rparr>" "[Pull 0, Pull 1]" exampleJobs ps]
  have "length (workers ps) = 20" using t ps(1) by blast
  moreover have "numberOfConcurrentReaders (newJobBigQueryLoaderOptions exampleAllJobs \<lparr>JobName = ''e2e-aws''\<rparr>) = 20"
    using t by blast
  moreover have "run (exampleOpts 1) [Recv, Acquire, Recv, Acquire] (pipelineStart [''6'', ''8'']) = None"
    by (simp add: run_defs)
  ultimately show ?thesis using s ps by simp
qed

end
